theory Spec2Isabelle
  imports Complex_Main
begin

section \<open>The Ethereum Snake engine of \<^verbatim>\<open>src/game.js\<close>\<close>

text \<open>
  The engine keeps its run state in the variables closed over by \<^verbatim>\<open>createGame\<close>.
  The model collects them in one record and passes it through every operation.
  Grid coordinates, the score and the countdown are JavaScript numbers that only ever hold
  integers: they are \<open>int\<close>. Timestamps come from \<^verbatim>\<open>performance.now()\<close> and
  random numbers from \<^verbatim>\<open>Math.random()\<close>: they are \<open>real\<close>, and both are inputs of
  the operation that reads them. The arithmetic on random numbers is that of doubles,
  rounding included; sums and differences of timestamps are exact.
  The observer callbacks (\<^verbatim>\<open>onScore?.(...)\<close> and so on) are recorded, in call order,
  in the field \<open>calls\<close>. Sprites and drawing are left out.
\<close>

subsection \<open>Constants and tables\<close>

definition GRID_SIZE :: int where
  "GRID_SIZE = 20"

definition TARGET_SCORE :: int where
  "TARGET_SCORE = 100"

definition START_TIME :: int where
  "START_TIME = 90"

datatype kind = Normal | Shield | Fraud | Jam | Drain

text \<open>\<^verbatim>\<open>FOOD_TYPES[type].value\<close>\<close>

fun FOOD_TYPES_value :: "kind \<Rightarrow> int" where
  "FOOD_TYPES_value Normal = 3"
| "FOOD_TYPES_value Shield = 8"
| "FOOD_TYPES_value Fraud = 10"
| "FOOD_TYPES_value Jam = 8"
| "FOOD_TYPES_value Drain = 6"

record l2 =
  l2_name :: string
  l2_key :: string
  l2_ledgerId :: string
  l2_type :: kind

definition L2S :: "l2 list" where
  "L2S =
    [\<lparr>l2_name = ''Arbitrum'', l2_key = ''arbitrum'', l2_ledgerId = ''arbitrum'', l2_type = Fraud\<rparr>,
     \<lparr>l2_name = ''Optimism'', l2_key = ''optimism'', l2_ledgerId = ''optimism'', l2_type = Jam\<rparr>,
     \<lparr>l2_name = ''Base'', l2_key = ''base'', l2_ledgerId = ''base'', l2_type = Normal\<rparr>,
     \<lparr>l2_name = ''zkSync'', l2_key = ''zksync'', l2_ledgerId = ''zksync'', l2_type = Shield\<rparr>,
     \<lparr>l2_name = ''Starknet'', l2_key = ''starknet'', l2_ledgerId = ''starknet'', l2_type = Drain\<rparr>,
     \<lparr>l2_name = ''Linea'', l2_key = ''linea'', l2_ledgerId = ''linea'', l2_type = Normal\<rparr>,
     \<lparr>l2_name = ''Scroll'', l2_key = ''scroll'', l2_ledgerId = ''scroll'', l2_type = Shield\<rparr>]"

definition POWERED_TYPES :: "kind list" where
  "POWERED_TYPES = [Shield, Fraud, Jam, Drain]"

subsection \<open>Run state\<close>

text \<open>A grid cell or a direction vector, \<^verbatim>\<open>{ x, y }\<close>.\<close>

record pos =
  px :: int
  py :: int

text \<open>A food item as \<^verbatim>\<open>spawnFood\<close> pushes it (without its sprite).\<close>

record food =
  fx :: int
  fy :: int
  fname :: string
  ftype :: kind
  fkey :: string
  verified :: bool

text \<open>One constructor for each observer callback, with the arguments of the call.\<close>

datatype event =
    OnScore int
  | OnTime int
  | OnSecurity string "nat option"
  | OnLastL2 string
  | OnGameOver string int
  | OnWin int

text \<open>
  \<open>sceneRef\<close> says whether Phaser has run \<^verbatim>\<open>create\<close>; \<open>moveTimer\<close> is the delay of
  the movement timer, when the timer exists.
\<close>

record state =
  snake :: "pos list"
  direction :: pos
  nextDirection :: pos
  moveTimer :: "int option"
  speed :: int
  foods :: "food list"
  score :: int
  timeLeft :: int
  isPaused :: bool
  isGameOver :: bool
  reverseUntil :: real
  stunUntil :: real
  poweredEatTimes :: "real list"
  lastL2 :: string
  sceneRef :: bool
  calls :: "event list"

text \<open>
  The three readings of \<^verbatim>\<open>performance.now()\<close> one movement tick can make: in
  \<^verbatim>\<open>step\<close>, in \<^verbatim>\<open>resolveEat\<close> and in \<^verbatim>\<open>updateSecurityHud\<close>.
\<close>

record clock =
  now_step :: real
  now_eat :: real
  now_hud :: real

text \<open>
  The random numbers one \<^verbatim>\<open>spawnFood\<close> call draws: the cell of the \<open>n\<close>-th attempt
  (two calls of \<^verbatim>\<open>Phaser.Math.Between(0, GRID_SIZE - 1)\<close>), and the two values of
  \<^verbatim>\<open>Math.random()\<close> that \<^verbatim>\<open>randomL2\<close> reads.
\<close>

record rnd =
  draws :: "nat \<Rightarrow> pos"
  u_gate :: real
  u_pick :: real

definition emit :: "event \<Rightarrow> state \<Rightarrow> state" where
  "emit e s = s\<lparr>calls := calls s @ [e]\<rparr>"

subsection \<open>Ending a run\<close>

definition gameOver :: "string \<Rightarrow> state \<Rightarrow> state" where
  "gameOver reason s = emit (OnGameOver reason (score s)) (s\<lparr>isGameOver := True\<rparr>)"

definition winGame :: "state \<Rightarrow> state" where
  "winGame s = emit (OnWin (score s)) (s\<lparr>isGameOver := True\<rparr>)"

subsection \<open>Double-precision arithmetic\<close>

text \<open>
  JavaScript numbers are IEEE 754 binary64 values, and every arithmetic operation returns
  the double nearest the exact result, a tie going to the even significand. \<open>round64\<close>
  is that rounding for values below the overflow threshold, which is all the engine ever
  computes: the exponent of the binade of \<open>\<bar>x\<bar>\<close> is found by doubling or halving (at most
  1100 times, more than the exponent range needs), it is held at \<open>-1022\<close> for subnormal
  values, and the value is rounded to a multiple of the unit in the last place,
  \<open>2\<^sup>e\<^sup>-\<^sup>5\<^sup>2\<close>. A real number is a double when rounding leaves it as it is.
\<close>

definition pow2 :: "int \<Rightarrow> real" where
  "pow2 e = (if 0 \<le> e then 2 ^ nat e else 1 / 2 ^ nat (- e))"

fun binade :: "nat \<Rightarrow> real \<Rightarrow> int" where
  "binade 0 x = 0"
| "binade (Suc n) x =
     (if x < 1 then binade n (2 * x) - 1
      else if 2 \<le> x then binade n (x / 2) + 1
      else 0)"

definition roundEven :: "real \<Rightarrow> int" where
  "roundEven q =
     (let f = \<lfloor>q\<rfloor>; d = q - of_int f
      in if d < 1 / 2 then f
         else if 1 / 2 < d then f + 1
         else if even f then f else f + 1)"

definition ulpExp :: "real \<Rightarrow> int" where
  "ulpExp x = max (binade 1100 \<bar>x\<bar>) (- 1022) - 52"

definition round64 :: "real \<Rightarrow> real" where
  "round64 x =
     (if x = 0 then 0 else of_int (roundEven (x / pow2 (ulpExp x))) * pow2 (ulpExp x))"

definition isDouble :: "real \<Rightarrow> bool" where
  "isDouble x \<longleftrightarrow> round64 x = x"

subsection \<open>Spawning food\<close>

definition isOccupied :: "state \<Rightarrow> pos \<Rightarrow> bool" where
  "isOccupied s p =
     (if list_ex (\<lambda>seg. px seg = px p \<and> py seg = py p) (snake s) then True
      else if list_ex (\<lambda>food. fx food = px p \<and> fy food = py p) (foods s) then True
      else False)"

text \<open>
  \<^verbatim>\<open>randomL2\<close>, with its arithmetic in doubles: the literals \<^verbatim>\<open>0.2\<close> and \<^verbatim>\<open>0.6\<close> are the
  doubles nearest to them, and the division, the sum and the product are each rounded.
  The score is an integer far below \<open>2\<^sup>5\<^sup>3\<close> and so a double itself; \<open>u1\<close> and \<open>u2\<close> are
  the two values of \<^verbatim>\<open>Math.random()\<close>, doubles in \<open>[0, 1)\<close>. For those the index is
  inside the pool; the model answers \<open>None\<close> where JavaScript would read
  \<^verbatim>\<open>undefined\<close>.
\<close>

definition randomL2 :: "int \<Rightarrow> real \<Rightarrow> real \<Rightarrow> l2 option" where
  "randomL2 sc u1 u2 =
     (let powerChance =
            min (round64 (round64 0.2 + round64 (real_of_int sc / 200))) (round64 0.6);
          allowPowered = (u1 < powerChance);
          pool = (if allowPowered then L2S else filter (\<lambda>l. l2_type l = Normal) L2S);
          i = \<lfloor>round64 (u2 * real (length pool))\<rfloor>
      in if 0 \<le> i \<and> i < int (length pool) then Some (pool ! nat i) else None)"

text \<open>
  The \<^verbatim>\<open>do ... while (isOccupied(spot) && tries < 200)\<close> loop; \<open>tries\<close> is the
  number of attempts made so far. It returns the last cell drawn and the final count.
\<close>

function pickSpot :: "(nat \<Rightarrow> pos) \<Rightarrow> state \<Rightarrow> nat \<Rightarrow> pos \<times> nat" where
  "pickSpot d s tries =
     (if isOccupied s (d tries) \<and> tries + 1 < 200
      then pickSpot d s (tries + 1)
      else (d tries, tries + 1))"
  by pat_completeness auto
termination
  by (relation "measure (\<lambda>(d, s, tries). 200 - tries)") auto

declare pickSpot.simps [simp del]

definition spawnFood :: "bool \<Rightarrow> rnd \<Rightarrow> state \<Rightarrow> state" where
  "spawnFood scene r s =
     (if length (foods s) \<ge> 5 then s
      else if \<not> scene then s
      else
        (case pickSpot (draws r) s 0 of
           (spot, tries) \<Rightarrow>
             if tries \<ge> 200 then s
             else
               (case randomL2 (score s) (u_gate r) (u_pick r) of
                  None \<Rightarrow> s
                | Some l \<Rightarrow>
                    s\<lparr>foods := foods s @
                        [\<lparr>fx = px spot, fy = py spot, fname = l2_name l, ftype = l2_type l,
                          fkey = l2_key l, verified = False\<rparr>]\<rparr>)))"

subsection \<open>Lifecycle and input\<close>

text \<open>The initial value of \<^verbatim>\<open>lastL2\<close> is an em dash, here as its UTF-8 bytes.\<close>

definition dash :: string where
  "dash = [CHR 0xE2, CHR 0x80, CHR 0x94]"

definition start :: "(nat \<Rightarrow> rnd) \<Rightarrow> state \<Rightarrow> state" where
  "start rs s =
     (if \<not> sceneRef s then s
      else
        (let s1 = s\<lparr>foods := [],
                    snake := [\<lparr>px = 8, py = 10\<rparr>, \<lparr>px = 7, py = 10\<rparr>, \<lparr>px = 6, py = 10\<rparr>],
                    direction := \<lparr>px = 1, py = 0\<rparr>,
                    nextDirection := \<lparr>px = 1, py = 0\<rparr>,
                    score := 0,
                    timeLeft := START_TIME,
                    speed := 140,
                    isPaused := False,
                    isGameOver := False,
                    reverseUntil := 0,
                    stunUntil := 0,
                    poweredEatTimes := [],
                    lastL2 := dash\<rparr>;
             s2 = emit (OnLastL2 (lastL2 s1))
                    (emit (OnSecurity ''Stable'' None)
                      (emit (OnTime (timeLeft s1)) (emit (OnScore (score s1)) s1)))
         in foldl (\<lambda>st i. spawnFood (sceneRef st) (rs i) st) s2 [0 ..< 4]))"

definition pause :: "state \<Rightarrow> state" where
  "pause s = s\<lparr>isPaused := True\<rparr>"

definition resume :: "state \<Rightarrow> state" where
  "resume s = s\<lparr>isPaused := False\<rparr>"

definition togglePause :: "state \<Rightarrow> state" where
  "togglePause s = s\<lparr>isPaused := \<not> isPaused s\<rparr>"

text \<open>The \<^verbatim>\<open>togglePause\<close> of the standalone copy of the game, \<^verbatim>\<open>main.js\<close>.\<close>

definition togglePause_main :: "state \<Rightarrow> state" where
  "togglePause_main s = (if isGameOver s then s else s\<lparr>isPaused := \<not> isPaused s\<rparr>)"

text \<open>\<^verbatim>\<open>applyDirection\<close>, exported as \<^verbatim>\<open>setDirection\<close>; \<open>now\<close> is the clock reading.\<close>

definition applyDirection :: "real \<Rightarrow> pos \<Rightarrow> state \<Rightarrow> state" where
  "applyDirection now desired s =
     (let reverse = (now < reverseUntil s);
          next = (if reverse then \<lparr>px = - px desired, py = - py desired\<rparr> else desired)
      in if px next + px (direction s) = 0 \<and> py next + py (direction s) = 0 then s
         else s\<lparr>nextDirection := next\<rparr>)"

subsection \<open>Timers and difficulty\<close>

definition tickTimer :: "state \<Rightarrow> state" where
  "tickTimer s =
     (if isPaused s \<or> isGameOver s then s
      else
        (let s1 = s\<lparr>timeLeft := timeLeft s - 1\<rparr>
         in if timeLeft s1 \<le> 0 then gameOver ''Time ran out.'' s1
            else emit (OnTime (timeLeft s1)) s1))"

definition adjustDifficulty :: "state \<Rightarrow> state" where
  "adjustDifficulty s =
     (let s1 = (if score s \<ge> 70 then s\<lparr>speed := 90\<rparr>
                else if score s \<ge> 40 then s\<lparr>speed := 110\<rparr>
                else s\<lparr>speed := 140\<rparr>)
      in case moveTimer s1 of
           None \<Rightarrow> s1
         | Some _ \<Rightarrow> s1\<lparr>moveTimer := Some (speed s1)\<rparr>)"

definition updateSecurityHud :: "real \<Rightarrow> state \<Rightarrow> state" where
  "updateSecurityHud now s =
     (let danger = length (filter (\<lambda>t. now - t < 15000) (poweredEatTimes s));
          status = (if danger \<ge> 2 then ''Shaky'' else ''Stable'')
      in emit (OnSecurity status (Some danger)) s)"

subsection \<open>Eating\<close>

text \<open>
  \<^verbatim>\<open>Array.prototype.splice(start, deleteCount)\<close> without inserted items: a negative
  start counts from the end, and the count is clamped to what is there.
\<close>

definition splice :: "int \<Rightarrow> int \<Rightarrow> 'a list \<Rightarrow> 'a list" where
  "splice st cnt xs =
     (let n = int (length xs);
          a = (if st < 0 then max (n + st) 0 else min st n);
          c = min (max cnt 0) (n - a)
      in take (nat a) xs @ drop (nat (a + c)) xs)"

definition resolveEat :: "clock \<Rightarrow> food \<Rightarrow> state \<Rightarrow> state" where
  "resolveEat c food s =
     (let type = ftype food; now = now_eat c
      in if type = Fraud \<and> \<not> verified food
         then gameOver ''A fraud-proof L2 was eaten before verification.'' s
         else
           (let s1 = s\<lparr>score := score s + FOOD_TYPES_value type, lastL2 := fname food\<rparr>;
                s2 = emit (OnLastL2 (lastL2 s1)) (emit (OnScore (score s1)) s1);
                s3 = (if type \<in> set POWERED_TYPES
                      then s2\<lparr>poweredEatTimes :=
                             filter (\<lambda>t. now - t < 15000) (poweredEatTimes s2 @ [now])\<rparr>
                      else s2)
            in if type \<in> set POWERED_TYPES \<and> length (poweredEatTimes s3) \<ge> 3
               then gameOver ''Security collapse: too many powered L2s in a short window.'' s3
               else
                 (let s4 = (if type = Shield then s3\<lparr>stunUntil := now + 2000\<rparr> else s3);
                      s5 = (if type = Jam then s4\<lparr>reverseUntil := now + 3000\<rparr> else s4);
                      s6 = (if type = Drain
                            then (let loss = min 3 (int (length (snake s5)) - 2)
                                  in s5\<lparr>snake :=
                                       splice (int (length (snake s5)) - loss) loss (snake s5)\<rparr>)
                            else s5)
                  in if score s6 \<ge> TARGET_SCORE then winGame s6
                     else updateSecurityHud (now_hud c) (adjustDifficulty s6))))"

definition verifyFraudProof :: "pos \<Rightarrow> state \<Rightarrow> state" where
  "verifyFraudProof head s =
     s\<lparr>foods :=
         map (\<lambda>food.
                if ftype food \<noteq> Fraud \<or> verified food then food
                else if \<bar>fx food - px head\<bar> + \<bar>fy food - py head\<bar> = 1
                     then food\<lparr>verified := True\<rparr>
                     else food)
             (foods s)\<rparr>"

subsection \<open>The movement tick\<close>

text \<open>
  The index at which the \<^verbatim>\<open>for\<close> loop of \<^verbatim>\<open>step\<close> stops: the first food item on
  the cell, if there is one.
\<close>

fun foodIndexAt :: "pos \<Rightarrow> food list \<Rightarrow> nat option" where
  "foodIndexAt p [] = None"
| "foodIndexAt p (f # fs) =
     (if fx f = px p \<and> fy f = py p then Some 0
      else map_option Suc (foodIndexAt p fs))"

text \<open>\<^verbatim>\<open>{ x: head.x + direction.x, y: head.y + direction.y }\<close>\<close>

definition movedHead :: "pos \<Rightarrow> pos \<Rightarrow> pos" where
  "movedHead head d = \<lparr>px = px head + px d, py = py head + py d\<rparr>"

text \<open>
  What \<^verbatim>\<open>step\<close> does from \<^verbatim>\<open>let ate = false\<close> to the \<^verbatim>\<open>snake.pop()\<close>: the scan of
  the food list, the eaten item's resolution, removal and replacement, or the drop of the
  tail.
\<close>

definition eatPhase :: "clock \<Rightarrow> rnd \<Rightarrow> pos \<Rightarrow> state \<Rightarrow> state" where
  "eatPhase c r newHead s =
     (case foodIndexAt newHead (foods s) of
        Some i \<Rightarrow>
          (let s1 = resolveEat c (foods s ! i) s;
               s2 = s1\<lparr>foods := splice (int i) 1 (foods s1)\<rparr>
           in spawnFood True r s2)
      | None \<Rightarrow> s\<lparr>snake := butlast (snake s)\<rparr>)"

definition step :: "clock \<Rightarrow> rnd \<Rightarrow> state \<Rightarrow> state" where
  "step c r s =
     (if isPaused s \<or> isGameOver s then s
      else if now_step c < stunUntil s then s
      else
        (case snake s of
           [] \<Rightarrow> s
         | head # _ \<Rightarrow>
             (let s1 = s\<lparr>direction := nextDirection s\<rparr>;
                  newHead = movedHead head (direction s1)
              in if px newHead < 0 \<or> px newHead \<ge> GRID_SIZE \<or>
                    py newHead < 0 \<or> py newHead \<ge> GRID_SIZE
                 then gameOver ''Hit the wall.'' s1
                 else if list_ex (\<lambda>seg. px seg = px newHead \<and> py seg = py newHead) (snake s1)
                 then gameOver ''Hit yourself.'' s1
                 else verifyFraudProof newHead
                        (eatPhase c r newHead (s1\<lparr>snake := newHead # snake s1\<rparr>)))))"

subsection \<open>Runs\<close>

text \<open>
  The states of a run: what a \<^verbatim>\<open>start()\<close> that found its scene leaves, and what any
  sequence of operations, timer ticks and inputs makes of it.
\<close>

inductive reachable :: "state \<Rightarrow> bool" where
  r_start: "sceneRef s \<Longrightarrow> reachable (start rs s)"
| r_pause: "reachable s \<Longrightarrow> reachable (pause s)"
| r_resume: "reachable s \<Longrightarrow> reachable (resume s)"
| r_toggle: "reachable s \<Longrightarrow> reachable (togglePause s)"
| r_input: "reachable s \<Longrightarrow> reachable (applyDirection now d s)"
| r_step: "reachable s \<Longrightarrow> reachable (step c r s)"
| r_tick: "reachable s \<Longrightarrow> reachable (tickTimer s)"


subsection \<open>The engine before its first run\<close>

text \<open>
  The values \<^verbatim>\<open>createGame\<close> gives its variables, and what \<^verbatim>\<open>create\<close> adds when Phaser
  has built the scene: the scene reference and the movement timer, set to the current speed.
\<close>

definition createGame_init :: state where
  "createGame_init =
     \<lparr>snake = [], direction = \<lparr>px = 1, py = 0\<rparr>, nextDirection = \<lparr>px = 1, py = 0\<rparr>,
      moveTimer = None, speed = 140, foods = [], score = 0, timeLeft = START_TIME,
      isPaused = False, isGameOver = False, reverseUntil = 0, stunUntil = 0,
      poweredEatTimes = [], lastL2 = dash, sceneRef = False, calls = []\<rparr>"

definition create :: "state \<Rightarrow> state" where
  "create s = s\<lparr>sceneRef := True, moveTimer := Some (speed s)\<rparr>"

subsection \<open>Vocabulary of the properties\<close>

text \<open>The cell the next movement tick moves the head to.\<close>

definition nextHead :: "state \<Rightarrow> pos" where
  "nextHead s = movedHead (hd (snake s)) (nextDirection s)"

definition inGrid :: "pos \<Rightarrow> bool" where
  "inGrid p \<longleftrightarrow> 0 \<le> px p \<and> px p < GRID_SIZE \<and> 0 \<le> py p \<and> py p < GRID_SIZE"

text \<open>
  A movement tick that gets as far as the eating phase: the run is live, not paused and not
  stunned, and the new head hits neither the wall nor the snake.
\<close>

definition tickMoves :: "clock \<Rightarrow> state \<Rightarrow> bool" where
  "tickMoves c s \<longleftrightarrow>
     \<not> isPaused s \<and> \<not> isGameOver s \<and> \<not> now_step c < stunUntil s \<and> snake s \<noteq> [] \<and>
     inGrid (nextHead s) \<and> nextHead s \<notin> set (snake s)"

text \<open>The state such a tick enters the eating phase with: direction committed, head prepended.\<close>

definition moved :: "state \<Rightarrow> state" where
  "moved s = s\<lparr>direction := nextDirection s, snake := nextHead s # snake s\<rparr>"

text \<open>The snake of a run has at least two cells, all of them on the grid.\<close>

definition snake_ok :: "state \<Rightarrow> bool" where
  "snake_ok s \<longleftrightarrow> 2 \<le> length (snake s) \<and> (\<forall>p \<in> set (snake s). inGrid p)"

text \<open>
  The powered-event window \<^verbatim>\<open>resolveEat\<close> computes for a powered item, and the test of
  the security collapse on it.
\<close>

definition windowAfter :: "clock \<Rightarrow> state \<Rightarrow> real list" where
  "windowAfter c s = filter (\<lambda>t. now_eat c - t < 15000) (poweredEatTimes s @ [now_eat c])"

definition collapses :: "clock \<Rightarrow> food \<Rightarrow> state \<Rightarrow> bool" where
  "collapses c f s \<longleftrightarrow> ftype f \<in> set POWERED_TYPES \<and> 3 \<le> length (windowAfter c s)"

text \<open>
  The stages of \<^verbatim>\<open>resolveEat\<close> on an item that is not an unverified fraud item: the state
  once the points are added, the two calls made and the window updated, and the state once
  the side effect of the kind is applied.
\<close>

definition scored :: "clock \<Rightarrow> food \<Rightarrow> state \<Rightarrow> state" where
  "scored c f s =
     s\<lparr>score := score s + FOOD_TYPES_value (ftype f),
       lastL2 := fname f,
       calls := calls s @ [OnScore (score s + FOOD_TYPES_value (ftype f)), OnLastL2 (fname f)],
       poweredEatTimes :=
         (if ftype f \<in> set POWERED_TYPES then windowAfter c s else poweredEatTimes s)\<rparr>"

definition sideEffect :: "clock \<Rightarrow> food \<Rightarrow> state \<Rightarrow> state" where
  "sideEffect c f s =
     (case ftype f of
        Shield \<Rightarrow> s\<lparr>stunUntil := now_eat c + 2000\<rparr>
      | Jam \<Rightarrow> s\<lparr>reverseUntil := now_eat c + 3000\<rparr>
      | Drain \<Rightarrow>
          s\<lparr>snake := take (length (snake s) - nat (min 3 (int (length (snake s)) - 2))) (snake s)\<rparr>
      | _ \<Rightarrow> s)"

subsection \<open>Example inputs\<close>

text \<open>A clock that reads \<open>t\<close> throughout a tick.\<close>

definition c_at :: "real \<Rightarrow> clock" where
  "c_at t = \<lparr>now_step = t, now_eat = t, now_hud = t\<rparr>"

text \<open>Random numbers that put a normal item (Base) on the cell \<open>(0, 0)\<close>.\<close>

definition r_far :: rnd where
  "r_far = \<lparr>draws = (\<lambda>n. \<lparr>px = 0, py = 0\<rparr>), u_gate = 7 / 8, u_pick = 0\<rparr>"

text \<open>
  Random numbers for \<^verbatim>\<open>start\<close> that put four fraud items (Arbitrum) on the cells
  \<open>(9, 10)\<close> to \<open>(12, 10)\<close>, right in front of the snake.
\<close>

definition rs_fraud :: "nat \<Rightarrow> rnd" where
  "rs_fraud i = \<lparr>draws = (\<lambda>n. \<lparr>px = 9 + int i, py = 10\<rparr>), u_gate = 0, u_pick = 0\<rparr>"

text \<open>
  A run that ends on its first movement tick: the snake eats the unverified fraud item in
  front of it.
\<close>

definition ended_run :: state where
  "ended_run = step (c_at 140) r_far (start rs_fraud (create createGame_init))"

text \<open>
  A run that coils up: \<^verbatim>\<open>start\<close> puts a normal item in front of the snake, the first
  tick eats it, and the snake then turns down, left and up, the head ending below the cell
  of its own tail.
\<close>

definition rs_normal :: "nat \<Rightarrow> rnd" where
  "rs_normal i =
     \<lparr>draws = (\<lambda>n. if i = 0 then \<lparr>px = 9, py = 10\<rparr> else \<lparr>px = int i, py = 0\<rparr>),
      u_gate = 7 / 8, u_pick = 0\<rparr>"

definition loop_run :: state where
  "loop_run =
     applyDirection 430 \<lparr>px = 0, py = - 1\<rparr>
       (step (c_at 420) r_far
         (applyDirection 300 \<lparr>px = - 1, py = 0\<rparr>
           (step (c_at 280) r_far
             (applyDirection 150 \<lparr>px = 0, py = 1\<rparr>
               (step (c_at 140) r_far (start rs_normal (create createGame_init)))))))"

text \<open>A drain item (Starknet) on the cell in front of the snake of a fresh run.\<close>

definition drain_item :: food where
  "drain_item =
     \<lparr>fx = 9, fy = 10, fname = ''Starknet'', ftype = Drain, fkey = ''starknet'',
      verified = False\<rparr>"

text \<open>A state with a straight snake of six cells, its head on \<open>(8, 10)\<close>, heading right.\<close>

definition long_snake :: state where
  "long_snake =
     (create createGame_init)
       \<lparr>snake := [\<lparr>px = 8, py = 10\<rparr>, \<lparr>px = 7, py = 10\<rparr>, \<lparr>px = 6, py = 10\<rparr>,
                  \<lparr>px = 5, py = 10\<rparr>, \<lparr>px = 4, py = 10\<rparr>, \<lparr>px = 3, py = 10\<rparr>]\<rparr>"

text \<open>Random numbers that put a normal item (Base) on a given cell.\<close>

definition r_cell :: "int \<Rightarrow> int \<Rightarrow> rnd" where
  "r_cell x y = \<lparr>draws = (\<lambda>n. \<lparr>px = x, py = y\<rparr>), u_gate = 7 / 8, u_pick = 0\<rparr>"

text \<open>Items on the cell in front of the snake of a fresh run.\<close>

definition shield_item :: food where
  "shield_item =
     \<lparr>fx = 9, fy = 10, fname = ''zkSync'', ftype = Shield, fkey = ''zksync'', verified = False\<rparr>"

definition normal_item :: food where
  "normal_item =
     \<lparr>fx = 9, fy = 10, fname = ''Base'', ftype = Normal, fkey = ''base'', verified = False\<rparr>"

definition fraud_item :: "bool \<Rightarrow> food" where
  "fraud_item v =
     \<lparr>fx = 9, fy = 10, fname = ''Arbitrum'', ftype = Fraud, fkey = ''arbitrum'', verified = v\<rparr>"

text \<open>
  The six-cell snake with two powered items eaten, at the times 1000 and 5000, and 95
  points; and with 97 points and a normal item in front.
\<close>

definition two_eaten :: state where
  "two_eaten = long_snake\<lparr>score := 95, poweredEatTimes := [1000, 5000]\<rparr>"

definition near_win :: state where
  "near_win = long_snake\<lparr>score := 97, foods := [normal_item]\<rparr>"


text \<open>
  A fresh run with fraud items beside the path of the snake: two next to the cell the head
  moves to first, two further away.
\<close>

definition rs_side :: "nat \<Rightarrow> rnd" where
  "rs_side i =
     \<lparr>draws = (\<lambda>n. [\<lparr>px = 9, py = 11\<rparr>, \<lparr>px = 9, py = 9\<rparr>, \<lparr>px = 11, py = 10\<rparr>,
                    \<lparr>px = 12, py = 10\<rparr>] ! i),
      u_gate = 0, u_pick = 0\<rparr>"

definition side_run :: state where
  "side_run = start rs_side (create createGame_init)"

text \<open>
  That run after its first movement tick, at time 140, which passes between the first two
  fraud items, with the snake then steered down, towards the first of them.
\<close>

definition verify_run :: state where
  "verify_run = applyDirection 150 \<lparr>px = 0, py = 1\<rparr> (step (c_at 140) r_far side_run)"

text \<open>
  A fresh run with a shield, a jam, a drain and a shield item in a row in front of the
  snake; the shield is eaten at time 140 and, the stun over, the jam at time 2200.
\<close>

definition rs_powered :: "nat \<Rightarrow> rnd" where
  "rs_powered i =
     \<lparr>draws = (\<lambda>n. \<lparr>px = 9 + int i, py = 10\<rparr>), u_gate = 0,
      u_pick = [1 / 2, 1 / 4, 5 / 8, 7 / 8] ! i\<rparr>"

definition powered_run :: state where
  "powered_run =
     step (c_at 2200) (r_cell 1 0)
       (step (c_at 140) r_far (start rs_powered (create createGame_init)))"

text \<open>
  A run that is won by a drain item. The snake goes right along its row and then down the
  last column, over the cells \<open>path 1\<close>, \<open>path 2\<close>, ...; \<^verbatim>\<open>start\<close> and the ticks put a jam
  item (Optimism) on each of the first twelve cells and a drain item (Starknet) on the
  thirteenth, later spawns going to the top row. The player resumes, steers and lets one
  movement tick pass every eight seconds, and pauses in between, so that the window never
  holds three entries. \<open>drain_run\<close> is the run after twelve such ticks, at 96 points,
  resumed and steered for the thirteenth.
\<close>

definition path :: "nat \<Rightarrow> pos" where
  "path k = (if k \<le> 11 then \<lparr>px = 8 + int k, py = 10\<rparr> else \<lparr>px = 19, py = int k - 1\<rparr>)"

definition r_path :: "nat \<Rightarrow> rnd" where
  "r_path k =
     \<lparr>draws = (\<lambda>n. if k \<le> 13 then path k else \<lparr>px = int k - 14, py = 0\<rparr>),
      u_gate = (if k \<le> 13 then 0 else 7 / 8),
      u_pick = (if k \<le> 12 then 1 / 4 else if k = 13 then 5 / 8 else 0)\<rparr>"

definition tick :: "nat \<Rightarrow> state \<Rightarrow> state" where
  "tick k s =
     pause
       (step (c_at (8000 * real k)) (r_path (k + 4))
         (applyDirection (8000 * real k - 10)
            \<lparr>px = px (path k) - px (path (k - 1)), py = py (path k) - py (path (k - 1))\<rparr>
            (resume s)))"

definition drain_run :: state where
  "drain_run =
     applyDirection 103990 \<lparr>px = 0, py = 1\<rparr>
       (resume
         (foldl (\<lambda>s k. tick k s) (start (\<lambda>i. r_path (Suc i)) (create createGame_init))
            [1 ..< 13]))"

section \<open>Properties\<close>

subsection \<open>Basic facts\<close>

lemma gameOver_eq:
  "gameOver reason s = s\<lparr>isGameOver := True, calls := calls s @ [OnGameOver reason (score s)]\<rparr>"
  by (simp add: gameOver_def emit_def)

lemma winGame_eq:
  "winGame s = s\<lparr>isGameOver := True, calls := calls s @ [OnWin (score s)]\<rparr>"
  by (simp add: winGame_def emit_def)

lemma pos_eq_iff: "(p = q) \<longleftrightarrow> (px p = px q \<and> py p = py q)" for p q :: pos
  by (cases p, cases q) auto

lemma list_ex_pos: "list_ex (\<lambda>seg. px seg = px p \<and> py seg = py p) xs \<longleftrightarrow> p \<in> set xs"
  for p :: pos
  by (induction xs) (auto simp: pos_eq_iff)

subsection \<open>Rounding to doubles\<close>

lemma pow2_powr: "pow2 e = 2 powr real_of_int e"
  by (cases "0 \<le> e") (simp_all add: pow2_def powr_realpow [symmetric] powr_minus_divide)

lemma pow2_pos [simp]: "0 < pow2 e"
  by (simp add: pow2_powr)

lemma pow2_add: "pow2 (a + b) = pow2 a * pow2 b"
  by (simp add: pow2_powr powr_add)

lemma pow2_mono: "a \<le> b \<Longrightarrow> pow2 a \<le> pow2 b"
  by (simp add: pow2_powr)

lemma pow2_less_iff: "pow2 a < pow2 b \<longleftrightarrow> a < b"
  by (simp add: pow2_powr)

lemma pow2_le_iff: "pow2 a \<le> pow2 b \<longleftrightarrow> a \<le> b"
  by (simp add: pow2_powr)

lemma pow2_0 [simp]: "pow2 0 = 1"
  by (simp add: pow2_def)

lemma pow2_1 [simp]: "pow2 1 = 2"
  by (simp add: pow2_def)

lemma pow2_numeral: "pow2 (numeral k) = 2 ^ numeral k"
  by (simp add: pow2_def)

lemma pow2_succ: "pow2 (e + 1) = 2 * pow2 e"
  by (simp add: pow2_add)

lemma pow2_pred: "pow2 (e - 1) = pow2 e / 2"
  using pow2_succ [of "e - 1"] by simp

lemma binade_le0: "x < 2 \<Longrightarrow> binade n x \<le> 0"
proof (induction n arbitrary: x)
  case 0
  then show ?case by simp
next
  case (Suc n)
  show ?case
  proof (cases "x < 1")
    case True
    then have "binade n (2 * x) \<le> 0" by (intro Suc.IH) simp
    with True show ?thesis by simp
  next
    case False
    with Suc.prems show ?thesis by simp
  qed
qed

lemma binade_neg: "x < 1 \<Longrightarrow> binade (Suc n) x \<le> - 1"
  using binade_le0 [of "2 * x" n] by simp

lemma binade_lower: "1 \<le> x \<Longrightarrow> pow2 (binade n x) \<le> x"
proof (induction n arbitrary: x)
  case 0
  then show ?case by simp
next
  case (Suc n)
  show ?case
  proof (cases "2 \<le> x")
    case True
    then have "pow2 (binade n (x / 2)) \<le> x / 2" by (intro Suc.IH) simp
    then have "pow2 (binade n (x / 2) + 1) \<le> x" by (simp add: pow2_succ)
    with True Suc.prems show ?thesis by simp
  next
    case False
    with Suc.prems show ?thesis by simp
  qed
qed

lemma binade_upper: "0 < x \<Longrightarrow> x < pow2 (int n) \<or> x < 2 \<Longrightarrow> x < pow2 (binade n x + 1)"
proof (induction n arbitrary: x)
  case 0
  then show ?case by auto
next
  case (Suc n)
  consider "x < 1" | "2 \<le> x" | "1 \<le> x" "x < 2" by linarith
  then show ?case
  proof cases
    case 1
    with Suc.prems have "2 * x < pow2 (binade n (2 * x) + 1)" by (intro Suc.IH) auto
    then have "x < pow2 (binade n (2 * x))" by (simp add: pow2_succ)
    with 1 show ?thesis by simp
  next
    case 2
    with Suc.prems have "x < pow2 (int n + 1)" by (auto simp: add.commute)
    then have "x / 2 < pow2 (int n)" by (simp add: pow2_succ)
    with 2 have "x / 2 < pow2 (binade n (x / 2) + 1)" by (intro Suc.IH) auto
    moreover have "pow2 (binade n (x / 2) + 1 + 1) = 2 * pow2 (binade n (x / 2) + 1)"
      by (rule pow2_succ)
    ultimately have "x < pow2 (binade n (x / 2) + 1 + 1)" by simp
    with 2 show ?thesis by simp
  next
    case 3
    then show ?thesis by simp
  qed
qed

lemma roundEven_floor: "roundEven q = \<lfloor>q\<rfloor> \<or> roundEven q = \<lfloor>q\<rfloor> + 1"
  by (simp add: roundEven_def Let_def)

lemma roundEven_nonneg: "0 \<le> q \<Longrightarrow> 0 \<le> roundEven q"
  using roundEven_floor [of q] by (auto simp: zero_le_floor)

lemma roundEven_int [simp]: "roundEven (of_int k) = k"
  by (simp add: roundEven_def)

lemma roundEven_le: "q \<le> of_int k \<Longrightarrow> roundEven q \<le> k"
proof -
  assume a: "q \<le> of_int k"
  show ?thesis
  proof (cases "q = of_int k")
    case True
    then show ?thesis by simp
  next
    case False
    with a have "q < of_int k" by simp
    then have "\<lfloor>q\<rfloor> < k" by (simp add: floor_less_iff)
    with roundEven_floor [of q] show ?thesis by auto
  qed
qed

lemma roundEven_below_half: "q < of_int k - 1 / 2 \<Longrightarrow> roundEven q \<le> k - 1"
proof -
  assume a: "q < of_int k - 1 / 2"
  then have "q < of_int k" by simp
  then have fl: "\<lfloor>q\<rfloor> \<le> k - 1" by (simp add: floor_less_iff)
  show ?thesis
  proof (cases "\<lfloor>q\<rfloor> = k - 1")
    case True
    with a have "q - of_int \<lfloor>q\<rfloor> < 1 / 2" by simp
    then have "roundEven q = \<lfloor>q\<rfloor>" by (simp add: roundEven_def Let_def)
    with True show ?thesis by simp
  next
    case False
    with fl have "\<lfloor>q\<rfloor> + 1 \<le> k - 1" by simp
    with roundEven_floor [of q] show ?thesis by auto
  qed
qed

lemma round64_nonneg: "0 \<le> x \<Longrightarrow> 0 \<le> round64 x"
  by (auto simp: round64_def intro!: mult_nonneg_nonneg roundEven_nonneg divide_nonneg_pos
      less_imp_le [OF pow2_pos])

lemma round64_alt:
  "x \<noteq> 0 \<Longrightarrow> round64 x = of_int (roundEven (x / pow2 (ulpExp x))) * pow2 (ulpExp x)"
  by (simp add: round64_def)

lemma pow2_nz [simp]: "pow2 e \<noteq> 0"
  by (simp add: pow2_powr)

lemma pow2_split: "pow2 (e + 1) = pow2 53 * pow2 (e - 52)"
proof -
  have "pow2 (e + 1) = pow2 (53 + (e - 52))"
    by (rule arg_cong [where f = pow2]) simp
  also have "\<dots> = pow2 53 * pow2 (e - 52)"
    by (rule pow2_add)
  finally show ?thesis .
qed

lemma binade_unit: "1 \<le> x \<Longrightarrow> x < 2 \<Longrightarrow> binade n x = 0"
  by (cases n) simp_all

lemma big_fuel: "x < 8 \<Longrightarrow> x < pow2 (int 1100)"
proof -
  assume "x < 8"
  moreover have "(8::real) \<le> pow2 (int 1100)"
    using pow2_mono [of 3 "int 1100"] by (simp add: pow2_numeral)
  ultimately show ?thesis by simp
qed

text \<open>A value is rounded within its binade.\<close>

lemma round64_bound:
  assumes "0 < x" "x < 8"
  shows "round64 x \<le> pow2 (max (binade 1100 x) (- 1022) + 1)"
proof -
  let ?E = "max (binade 1100 x) (- 1022)"
  have up: "x < pow2 (?E + 1)"
  proof -
    from assms have "x < pow2 (int 1100)" by (intro big_fuel)
    with assms have "x < pow2 (binade 1100 x + 1)"
      by (intro binade_upper disjI1)
    also have "\<dots> \<le> pow2 (?E + 1)" by (intro pow2_mono) simp
    finally show ?thesis .
  qed
  have ue: "ulpExp x = ?E - 52" using assms by (simp add: ulpExp_def)
  have "x / pow2 (?E - 52) < pow2 (?E + 1) / pow2 (?E - 52)"
    using up by (simp add: divide_strict_right_mono)
  also have "pow2 (?E + 1) / pow2 (?E - 52) = pow2 53"
    by (simp add: pow2_split [of ?E])
  finally have "x / pow2 (?E - 52) \<le> of_int (2 ^ 53)" by (simp add: pow2_numeral)
  then have "roundEven (x / pow2 (?E - 52)) \<le> 2 ^ 53" by (rule roundEven_le)
  then have "of_int (roundEven (x / pow2 (?E - 52))) * pow2 (?E - 52)
      \<le> of_int (2 ^ 53) * pow2 (?E - 52)"
    by (simp add: mult_right_mono less_imp_le)
  also have "of_int (2 ^ 53) * pow2 (?E - 52) = pow2 (?E + 1)"
    by (simp add: pow2_split [of ?E] pow2_numeral)
  finally show ?thesis using assms ue by (simp add: round64_alt)
qed

lemma round64_small:
  assumes "0 < x" "x < 4"
  shows "round64 x \<le> 4"
proof -
  have b: "binade 1100 x \<le> 1"
  proof (cases "x < 2")
    case True
    then show ?thesis using binade_le0 [of x 1100] by simp
  next
    case False
    then have "pow2 (binade 1100 x) \<le> x" by (intro binade_lower) simp
    with assms have "pow2 (binade 1100 x) < pow2 2" by (simp add: pow2_numeral)
    then show ?thesis by (simp add: pow2_less_iff)
  qed
  from assms have "round64 x \<le> pow2 (max (binade 1100 x) (- 1022) + 1)"
    by (intro round64_bound) auto
  also have "\<dots> \<le> pow2 2" using b by (intro pow2_mono) simp
  finally show ?thesis by (simp add: pow2_numeral)
qed

lemma round64_below_1:
  assumes "0 < x" "x < 1"
  shows "round64 x \<le> 1"
proof -
  have "binade 1100 x \<le> - 1"
    using binade_neg [of x 1099] assms by simp
  then have b: "max (binade 1100 x) (- 1022) + 1 \<le> 0" by simp
  from assms have "round64 x \<le> pow2 (max (binade 1100 x) (- 1022) + 1)"
    by (intro round64_bound) auto
  also have "\<dots> \<le> pow2 0" using b by (rule pow2_mono)
  finally show ?thesis by simp
qed

lemma binade_half: "1 / 2 \<le> x \<Longrightarrow> x < 1 \<Longrightarrow> binade (Suc n) x = - 1"
  by (simp add: binade_unit)

lemma binade_four: "4 \<le> x \<Longrightarrow> x < 8 \<Longrightarrow> binade (Suc (Suc n)) x = 2"
  by (simp add: binade_unit)

lemma ulpExp_half: "1 / 2 \<le> x \<Longrightarrow> x < 1 \<Longrightarrow> ulpExp x = - 53"
  using binade_half [of x 1099] by (simp add: ulpExp_def)

lemma ulpExp_one: "1 \<le> x \<Longrightarrow> x < 2 \<Longrightarrow> ulpExp x = - 52"
  using binade_unit [of x 1100] by (simp add: ulpExp_def)

lemma ulpExp_four: "4 \<le> x \<Longrightarrow> x < 8 \<Longrightarrow> ulpExp x = - 50"
  using binade_four [of x 1098] by (simp add: ulpExp_def)

lemma pow2_neg_numeral: "pow2 (- numeral k) = 1 / 2 ^ numeral k"
  by (simp add: pow2_def)

text \<open>The largest double below 1.\<close>

lemma isDouble_below_1:
  assumes "isDouble u" "u < 1"
  shows "u \<le> 1 - 1 / 2 ^ 53"
proof (cases "u < 1 / 2")
  case True
  have "(1::real) / 2 ^ 53 \<le> 1 / 2" by simp
  with True show ?thesis by linarith
next
  case False
  then have h: "1 / 2 \<le> u" by simp
  then have nz: "u \<noteq> 0" by auto
  define k where "k = roundEven (u / pow2 (- 53))"
  have "round64 u = of_int k * pow2 (- 53)"
    using nz by (simp add: round64_alt ulpExp_half [OF h assms(2)] k_def)
  with assms(1) have u: "u = of_int k / 2 ^ 53"
    by (simp add: isDouble_def pow2_neg_numeral)
  with assms(2) have "real_of_int k < real_of_int (2 ^ 53)" by (simp add: divide_less_eq)
  then have "k < 2 ^ 53" by (simp only: of_int_less_iff)
  then have "k \<le> 2 ^ 53 - 1" by simp
  then have "real_of_int k \<le> real_of_int (2 ^ 53 - 1)" by (simp only: of_int_le_iff)
  then have "real_of_int k \<le> 2 ^ 53 - 1" by simp
  then have "real_of_int k / 2 ^ 53 \<le> (2 ^ 53 - 1) / 2 ^ 53"
    by (simp add: divide_right_mono)
  with u show ?thesis by (simp add: diff_divide_distrib)
qed

lemma round64_times_7:
  assumes "isDouble u" "0 \<le> u" "u < 1"
  shows "0 \<le> round64 (u * 7)" "round64 (u * 7) < 7"
proof -
  from assms(2) show "0 \<le> round64 (u * 7)" by (intro round64_nonneg) simp
  have le: "u * 7 \<le> 7 - 7 / 2 ^ 53"
    using isDouble_below_1 [OF assms(1,3)] by simp
  consider "u = 0" | "0 < u * 7" "u * 7 < 4" | "4 \<le> u * 7" using assms(2) by linarith
  then show "round64 (u * 7) < 7"
  proof cases
    case 1
    then show ?thesis by (simp add: round64_def)
  next
    case 2
    then have "round64 (u * 7) \<le> 4" by (rule round64_small)
    then show ?thesis by simp
  next
    case 3
    from assms(3) have lt8: "u * 7 < 8" by simp
    have nz: "u * 7 \<noteq> 0" using 3 by auto
    have "u * 7 / pow2 (- 50) = u * 7 * 2 ^ 50" by (simp add: pow2_neg_numeral)
    also have "\<dots> \<le> (7 - 7 / 2 ^ 53) * 2 ^ 50" using le by simp
    also have "\<dots> < of_int (7 * 2 ^ 50) - 1 / 2" by simp
    finally have "roundEven (u * 7 / pow2 (- 50)) \<le> 7 * 2 ^ 50 - 1"
      by (rule roundEven_below_half)
    then have "real_of_int (roundEven (u * 7 / pow2 (- 50))) \<le> real_of_int (7 * 2 ^ 50 - 1)"
      by (simp only: of_int_le_iff)
    then have "real_of_int (roundEven (u * 7 / pow2 (- 50))) \<le> 7 * 2 ^ 50 - 1" by simp
    then have "real_of_int (roundEven (u * 7 / pow2 (- 50))) * pow2 (- 50) \<le> (7 * 2 ^ 50 - 1) * pow2 (- 50)"
      by (simp add: mult_right_mono less_imp_le)
    also have "\<dots> < 7" by (simp add: pow2_neg_numeral)
    finally show ?thesis using nz by (simp add: round64_alt ulpExp_four [OF 3 lt8])
  qed
qed

lemma round64_times_2:
  assumes "isDouble u" "0 \<le> u" "u < 1"
  shows "0 \<le> round64 (u * 2)" "round64 (u * 2) < 2"
proof -
  from assms(2) show "0 \<le> round64 (u * 2)" by (intro round64_nonneg) simp
  have le: "u * 2 \<le> 2 - 2 / 2 ^ 53"
    using isDouble_below_1 [OF assms(1,3)] by simp
  consider "u = 0" | "0 < u * 2" "u * 2 < 1" | "1 \<le> u * 2" using assms(2) by linarith
  then show "round64 (u * 2) < 2"
  proof cases
    case 1
    then show ?thesis by (simp add: round64_def)
  next
    case 2
    then have "round64 (u * 2) \<le> 1" by (rule round64_below_1)
    then show ?thesis by simp
  next
    case 3
    from assms(3) have lt2: "u * 2 < 2" by simp
    have nz: "u * 2 \<noteq> 0" using 3 by auto
    have "u * 2 / pow2 (- 52) = u * 2 * 2 ^ 52" by (simp add: pow2_neg_numeral)
    also have "\<dots> \<le> (2 - 2 / 2 ^ 53) * 2 ^ 52" using le by simp
    also have "\<dots> = of_int (2 ^ 53 - 1)" by simp
    finally have "roundEven (u * 2 / pow2 (- 52)) \<le> 2 ^ 53 - 1"
      by (rule roundEven_le)
    then have "real_of_int (roundEven (u * 2 / pow2 (- 52))) \<le> real_of_int (2 ^ 53 - 1)"
      by (simp only: of_int_le_iff)
    then have "real_of_int (roundEven (u * 2 / pow2 (- 52))) \<le> 2 ^ 53 - 1" by simp
    then have "real_of_int (roundEven (u * 2 / pow2 (- 52))) * pow2 (- 52) \<le> (2 ^ 53 - 1) * pow2 (- 52)"
      by (simp add: mult_right_mono less_imp_le)
    also have "\<dots> < 2" by (simp add: pow2_neg_numeral)
    finally show ?thesis using nz by (simp add: round64_alt ulpExp_one [OF 3 lt2])
  qed
qed

lemma binade_lower_small: "pow2 (- int n) \<le> x \<Longrightarrow> pow2 (binade n x) \<le> x"
proof (induction n arbitrary: x)
  case 0
  then show ?case by simp
next
  case (Suc n)
  consider "x < 1" | "2 \<le> x" | "1 \<le> x" "x < 2" by linarith
  then show ?case
  proof cases
    case 1
    have "- int (Suc n) = - int n - 1" by simp
    then have "pow2 (- int (Suc n)) = pow2 (- int n) / 2"
      by (simp only: pow2_pred)
    with Suc.prems have "pow2 (- int n) \<le> 2 * x" by simp
    then have "pow2 (binade n (2 * x)) \<le> 2 * x" by (rule Suc.IH)
    then have "pow2 (binade n (2 * x) - 1) \<le> x" by (simp add: pow2_pred)
    with 1 show ?thesis by simp
  next
    case 2
    then have "pow2 (binade (Suc n) x) \<le> x" by (intro binade_lower) simp
    then show ?thesis .
  next
    case 3
    then show ?thesis by simp
  qed
qed

lemma roundEven_ge: "of_int k \<le> q \<Longrightarrow> k \<le> roundEven q"
proof -
  assume "of_int k \<le> q"
  then have "k \<le> \<lfloor>q\<rfloor>" by (simp add: le_floor_iff)
  with roundEven_floor [of q] show ?thesis by auto
qed

text \<open>Rounding does not cross a power of two downwards.\<close>

lemma round64_ge:
  assumes "pow2 k \<le> x" "- 1022 \<le> k" "x < pow2 (int 1100)"
  shows "pow2 k \<le> round64 x"
proof -
  have pos: "0 < x" using assms(1) pow2_pos [of k] by linarith
  let ?b = "binade 1100 x"
  have "pow2 (- int 1100) \<le> pow2 k" using assms(2) by (intro pow2_mono) simp
  with assms(1) have "pow2 (- int 1100) \<le> x" by simp
  then have lo: "pow2 ?b \<le> x" by (rule binade_lower_small)
  from pos assms(3) have "x < pow2 (?b + 1)" by (intro binade_upper disjI1)
  with assms(1) have "pow2 k < pow2 (?b + 1)" by simp
  then have kb: "k \<le> ?b" by (simp add: pow2_less_iff)
  with assms(2) have E: "max ?b (- 1022) = ?b" by simp
  have ue: "ulpExp x = ?b - 52" using pos E by (simp add: ulpExp_def)
  have b: "pow2 ?b = pow2 52 * pow2 (?b - 52)"
  proof -
    have "pow2 ?b = pow2 (52 + (?b - 52))" by (rule arg_cong [where f = pow2]) simp
    also have "\<dots> = pow2 52 * pow2 (?b - 52)" by (rule pow2_add)
    finally show ?thesis .
  qed
  define P where "P = pow2 (?b - 52)"
  define R where "R = roundEven (x / P)"
  have Ppos: "0 < P" by (simp add: P_def pow2_pos)
  have bP: "pow2 ?b = real_of_int (2 ^ 52) * P"
    using b by (simp add: P_def pow2_numeral)
  have "real_of_int (2 ^ 52) * P \<le> x" using lo bP by simp
  then have "real_of_int (2 ^ 52) \<le> x / P" using Ppos by (simp add: pos_le_divide_eq)
  then have "2 ^ 52 \<le> R" unfolding R_def by (rule roundEven_ge)
  then have "real_of_int (2 ^ 52) \<le> real_of_int R" by (simp only: of_int_le_iff)
  then have "real_of_int (2 ^ 52) * P \<le> real_of_int R * P"
    using Ppos by (intro mult_right_mono) simp_all
  then have "pow2 ?b \<le> real_of_int R * P" by (simp only: bP)
  moreover have "round64 x = real_of_int R * P"
    using pos ue by (simp add: round64_def R_def P_def)
  ultimately have "pow2 ?b \<le> round64 x" by simp
  moreover have "pow2 k \<le> pow2 ?b" using kb by (rule pow2_mono)
  ultimately show ?thesis by simp
qed

lemma round64_le_8:
  assumes "0 \<le> x" "x < 8"
  shows "round64 x \<le> 8"
proof (cases "x = 0")
  case True
  then show ?thesis by (simp add: round64_def)
next
  case False
  with assms have pos: "0 < x" by simp
  have b: "binade 1100 x \<le> 2"
  proof (cases "x < 2")
    case True
    then show ?thesis using binade_le0 [of x 1100] by simp
  next
    case False
    then have "pow2 (binade 1100 x) \<le> x" by (intro binade_lower) simp
    with assms have "pow2 (binade 1100 x) < pow2 3" by (simp add: pow2_numeral)
    then show ?thesis by (simp add: pow2_less_iff)
  qed
  from pos assms have "round64 x \<le> pow2 (max (binade 1100 x) (- 1022) + 1)"
    by (intro round64_bound) auto
  also have "\<dots> \<le> pow2 3" using b by (intro pow2_mono) simp
  finally show ?thesis by (simp add: pow2_numeral)
qed

subsection \<open>The threshold of the gate\<close>

text \<open>The doubles that the literals \<^verbatim>\<open>0.2\<close> and \<^verbatim>\<open>0.6\<close> stand for.\<close>

lemma round64_literals:
  "round64 (1 / 5) = 3602879701896397 / 2 ^ 54" "round64 (3 / 5) = 5404319552844595 / 2 ^ 53"
  by code_simp+

text \<open>
  The threshold \<^verbatim>\<open>powerChance\<close> is below \<open>3/5\<close> at every score, and at least \<open>1/8\<close> at the
  scores of a run that has not been won.
\<close>

lemma powerChance_upper:
  "min (round64 (round64 0.2 + round64 (real_of_int sc / 200))) (round64 0.6) < 3 / 5"
proof -
  have "min (round64 (round64 0.2 + round64 (real_of_int sc / 200))) (round64 0.6)
      \<le> round64 (3 / 5)"
    by simp
  then show ?thesis by (simp add: round64_literals)
qed

lemma powerChance_lower:
  assumes "0 \<le> sc" "sc \<le> 1000"
  shows "1 / 8 \<le> min (round64 (round64 0.2 + round64 (real_of_int sc / 200))) (round64 0.6)"
proof -
  have y: "0 \<le> round64 (real_of_int sc / 200)" "round64 (real_of_int sc / 200) \<le> 8"
    using assms by (auto intro!: round64_nonneg round64_le_8)
  have d: "(1::real) / 8 \<le> round64 (1 / 5)" "round64 (1 / 5) \<le> (1::real)"
    by (simp_all add: round64_literals)
  have "(16::real) \<le> pow2 (int 1100)"
    using pow2_mono [of 4 "int 1100"] by (simp add: pow2_numeral)
  with y d have big: "round64 (1 / 5) + round64 (real_of_int sc / 200) < pow2 (int 1100)"
    by linarith
  have "pow2 (- 3) \<le> round64 (1 / 5) + round64 (real_of_int sc / 200)"
    using y d by (simp add: pow2_neg_numeral)
  then have "pow2 (- 3) \<le> round64 (round64 (1 / 5) + round64 (real_of_int sc / 200))"
    using big by (intro round64_ge) simp_all
  then show ?thesis
    by (simp add: round64_literals(2) pow2_neg_numeral)
qed

text \<open>
  So a first random value of at least \<open>3/5\<close> closes the gate and one below \<open>1/8\<close> opens
  it, whatever the threshold is exactly; this equation lets the example runs be evaluated
  without rounding the threshold at every spawn.
\<close>

lemma randomL2_code [code]:
  "randomL2 sc u1 u2 =
     (let allowPowered =
            (if 3 / 5 \<le> u1 then False
             else if 0 \<le> sc \<and> sc \<le> 1000 \<and> u1 < 1 / 8 then True
             else u1 < min (round64 (round64 0.2 + round64 (real_of_int sc / 200)))
                        (round64 0.6));
          pool = (if allowPowered then L2S else filter (\<lambda>l. l2_type l = Normal) L2S);
          i = \<lfloor>round64 (u2 * real (length pool))\<rfloor>
      in if 0 \<le> i \<and> i < int (length pool) then Some (pool ! nat i) else None)"
proof -
  have "(if 3 / 5 \<le> u1 then False
         else if 0 \<le> sc \<and> sc \<le> 1000 \<and> u1 < 1 / 8 then True
         else u1 < min (round64 (round64 0.2 + round64 (real_of_int sc / 200)))
                    (round64 0.6))
      = (u1 < min (round64 (round64 0.2 + round64 (real_of_int sc / 200))) (round64 0.6))"
    using powerChance_upper [of sc] powerChance_lower [of sc] by auto
  then show ?thesis
    unfolding randomL2_def by (simp only: Let_def)
qed

subsection \<open>The example runs\<close>

lemma start_fraud_val:
  "start rs_fraud (create createGame_init) =
     \<lparr>snake = [\<lparr>px = 8, py = 10\<rparr>, \<lparr>px = 7, py = 10\<rparr>, \<lparr>px = 6, py = 10\<rparr>],
      direction = \<lparr>px = 1, py = 0\<rparr>, nextDirection = \<lparr>px = 1, py = 0\<rparr>,
      moveTimer = Some 140, speed = 140,
      foods =
        [\<lparr>fx = 9, fy = 10, fname = ''Arbitrum'', ftype = Fraud, fkey = ''arbitrum'',
           verified = False\<rparr>,
         \<lparr>fx = 10, fy = 10, fname = ''Arbitrum'', ftype = Fraud, fkey = ''arbitrum'',
           verified = False\<rparr>,
         \<lparr>fx = 11, fy = 10, fname = ''Arbitrum'', ftype = Fraud, fkey = ''arbitrum'',
           verified = False\<rparr>,
         \<lparr>fx = 12, fy = 10, fname = ''Arbitrum'', ftype = Fraud, fkey = ''arbitrum'',
           verified = False\<rparr>],
      score = 0, timeLeft = 90, isPaused = False, isGameOver = False,
      reverseUntil = 0, stunUntil = 0, poweredEatTimes = [],
      lastL2 = dash, sceneRef = True,
      calls = [OnScore 0, OnTime 90, OnSecurity ''Stable'' None, OnLastL2 dash]\<rparr>"
  by code_simp

lemma ended_run_val:
  "ended_run =
     \<lparr>snake = [\<lparr>px = 9, py = 10\<rparr>, \<lparr>px = 8, py = 10\<rparr>, \<lparr>px = 7, py = 10\<rparr>,
               \<lparr>px = 6, py = 10\<rparr>],
      direction = \<lparr>px = 1, py = 0\<rparr>, nextDirection = \<lparr>px = 1, py = 0\<rparr>,
      moveTimer = Some 140, speed = 140,
      foods =
        [\<lparr>fx = 10, fy = 10, fname = ''Arbitrum'', ftype = Fraud, fkey = ''arbitrum'',
           verified = True\<rparr>,
         \<lparr>fx = 11, fy = 10, fname = ''Arbitrum'', ftype = Fraud, fkey = ''arbitrum'',
           verified = False\<rparr>,
         \<lparr>fx = 12, fy = 10, fname = ''Arbitrum'', ftype = Fraud, fkey = ''arbitrum'',
           verified = False\<rparr>,
         \<lparr>fx = 0, fy = 0, fname = ''Base'', ftype = Normal, fkey = ''base'',
           verified = False\<rparr>],
      score = 0, timeLeft = 90, isPaused = False, isGameOver = True,
      reverseUntil = 0, stunUntil = 0, poweredEatTimes = [],
      lastL2 = dash, sceneRef = True,
      calls = [OnScore 0, OnTime 90, OnSecurity ''Stable'' None, OnLastL2 dash,
               OnGameOver ''A fraud-proof L2 was eaten before verification.'' 0]\<rparr>"
  by code_simp

lemma ended_run_reachable: "reachable ended_run"
  unfolding ended_run_def
  by (intro reachable.intros) (simp add: create_def)

lemma loop_run_val:
  "loop_run =
     \<lparr>snake = [\<lparr>px = 8, py = 11\<rparr>, \<lparr>px = 9, py = 11\<rparr>, \<lparr>px = 9, py = 10\<rparr>,
               \<lparr>px = 8, py = 10\<rparr>],
      direction = \<lparr>px = - 1, py = 0\<rparr>, nextDirection = \<lparr>px = 0, py = - 1\<rparr>,
      moveTimer = Some 140, speed = 140,
      foods =
        [\<lparr>fx = 1, fy = 0, fname = ''Base'', ftype = Normal, fkey = ''base'', verified = False\<rparr>,
         \<lparr>fx = 2, fy = 0, fname = ''Base'', ftype = Normal, fkey = ''base'', verified = False\<rparr>,
         \<lparr>fx = 3, fy = 0, fname = ''Base'', ftype = Normal, fkey = ''base'', verified = False\<rparr>,
         \<lparr>fx = 0, fy = 0, fname = ''Base'', ftype = Normal, fkey = ''base'', verified = False\<rparr>],
      score = 3, timeLeft = 90, isPaused = False, isGameOver = False,
      reverseUntil = 0, stunUntil = 0, poweredEatTimes = [],
      lastL2 = ''Base'', sceneRef = True,
      calls = [OnScore 0, OnTime 90, OnSecurity ''Stable'' None, OnLastL2 dash, OnScore 3,
               OnLastL2 ''Base'', OnSecurity ''Stable'' (Some 0)]\<rparr>"
  by code_simp

lemma loop_run_reachable: "reachable loop_run"
  unfolding loop_run_def
  by (intro reachable.intros) (simp add: create_def)

lemma drain_run_val:
  "drain_run =
     \<lparr>snake =
        [\<lparr>px = 19, py = 11\<rparr>, \<lparr>px = 19, py = 10\<rparr>, \<lparr>px = 18, py = 10\<rparr>,
         \<lparr>px = 17, py = 10\<rparr>, \<lparr>px = 16, py = 10\<rparr>, \<lparr>px = 15, py = 10\<rparr>,
         \<lparr>px = 14, py = 10\<rparr>, \<lparr>px = 13, py = 10\<rparr>, \<lparr>px = 12, py = 10\<rparr>,
         \<lparr>px = 11, py = 10\<rparr>, \<lparr>px = 10, py = 10\<rparr>, \<lparr>px = 9, py = 10\<rparr>,
         \<lparr>px = 8, py = 10\<rparr>, \<lparr>px = 7, py = 10\<rparr>, \<lparr>px = 6, py = 10\<rparr>],
      direction = \<lparr>px = 0, py = 1\<rparr>, nextDirection = \<lparr>px = 0, py = 1\<rparr>,
      moveTimer = Some 90, speed = 90,
      foods =
        [\<lparr>fx = 19, fy = 12, fname = ''Starknet'', ftype = Drain, fkey = ''starknet'',
           verified = False\<rparr>,
         \<lparr>fx = 0, fy = 0, fname = ''Base'', ftype = Normal, fkey = ''base'', verified = False\<rparr>,
         \<lparr>fx = 1, fy = 0, fname = ''Base'', ftype = Normal, fkey = ''base'', verified = False\<rparr>,
         \<lparr>fx = 2, fy = 0, fname = ''Base'', ftype = Normal, fkey = ''base'', verified = False\<rparr>],
      score = 96, timeLeft = 90, isPaused = False, isGameOver = False,
      reverseUntil = 99000, stunUntil = 0, poweredEatTimes = [88000, 96000],
      lastL2 = ''Optimism'', sceneRef = True,
      calls =
        [OnScore 0, OnTime 90, OnSecurity ''Stable'' None, OnLastL2 dash,
         OnScore 8, OnLastL2 ''Optimism'', OnSecurity ''Stable'' (Some 1),
         OnScore 16, OnLastL2 ''Optimism'', OnSecurity ''Shaky'' (Some 2),
         OnScore 24, OnLastL2 ''Optimism'', OnSecurity ''Shaky'' (Some 2),
         OnScore 32, OnLastL2 ''Optimism'', OnSecurity ''Shaky'' (Some 2),
         OnScore 40, OnLastL2 ''Optimism'', OnSecurity ''Shaky'' (Some 2),
         OnScore 48, OnLastL2 ''Optimism'', OnSecurity ''Shaky'' (Some 2),
         OnScore 56, OnLastL2 ''Optimism'', OnSecurity ''Shaky'' (Some 2),
         OnScore 64, OnLastL2 ''Optimism'', OnSecurity ''Shaky'' (Some 2),
         OnScore 72, OnLastL2 ''Optimism'', OnSecurity ''Shaky'' (Some 2),
         OnScore 80, OnLastL2 ''Optimism'', OnSecurity ''Shaky'' (Some 2),
         OnScore 88, OnLastL2 ''Optimism'', OnSecurity ''Shaky'' (Some 2),
         OnScore 96, OnLastL2 ''Optimism'', OnSecurity ''Shaky'' (Some 2)]\<rparr>"
  by code_simp

lemma side_run_val:
  "side_run =
     \<lparr>snake = [\<lparr>px = 8, py = 10\<rparr>, \<lparr>px = 7, py = 10\<rparr>, \<lparr>px = 6, py = 10\<rparr>],
      direction = \<lparr>px = 1, py = 0\<rparr>, nextDirection = \<lparr>px = 1, py = 0\<rparr>,
      moveTimer = Some 140, speed = 140,
      foods =
        [\<lparr>fx = 9, fy = 11, fname = ''Arbitrum'', ftype = Fraud, fkey = ''arbitrum'',
           verified = False\<rparr>,
         \<lparr>fx = 9, fy = 9, fname = ''Arbitrum'', ftype = Fraud, fkey = ''arbitrum'',
           verified = False\<rparr>,
         \<lparr>fx = 11, fy = 10, fname = ''Arbitrum'', ftype = Fraud, fkey = ''arbitrum'',
           verified = False\<rparr>,
         \<lparr>fx = 12, fy = 10, fname = ''Arbitrum'', ftype = Fraud, fkey = ''arbitrum'',
           verified = False\<rparr>],
      score = 0, timeLeft = 90, isPaused = False, isGameOver = False,
      reverseUntil = 0, stunUntil = 0, poweredEatTimes = [],
      lastL2 = dash, sceneRef = True,
      calls = [OnScore 0, OnTime 90, OnSecurity ''Stable'' None, OnLastL2 dash]\<rparr>"
  by code_simp

lemma verify_run_val:
  "verify_run =
     \<lparr>snake = [\<lparr>px = 9, py = 10\<rparr>, \<lparr>px = 8, py = 10\<rparr>, \<lparr>px = 7, py = 10\<rparr>],
      direction = \<lparr>px = 1, py = 0\<rparr>, nextDirection = \<lparr>px = 0, py = 1\<rparr>,
      moveTimer = Some 140, speed = 140,
      foods =
        [\<lparr>fx = 9, fy = 11, fname = ''Arbitrum'', ftype = Fraud, fkey = ''arbitrum'',
           verified = True\<rparr>,
         \<lparr>fx = 9, fy = 9, fname = ''Arbitrum'', ftype = Fraud, fkey = ''arbitrum'',
           verified = True\<rparr>,
         \<lparr>fx = 11, fy = 10, fname = ''Arbitrum'', ftype = Fraud, fkey = ''arbitrum'',
           verified = False\<rparr>,
         \<lparr>fx = 12, fy = 10, fname = ''Arbitrum'', ftype = Fraud, fkey = ''arbitrum'',
           verified = False\<rparr>],
      score = 0, timeLeft = 90, isPaused = False, isGameOver = False,
      reverseUntil = 0, stunUntil = 0, poweredEatTimes = [],
      lastL2 = dash, sceneRef = True,
      calls = [OnScore 0, OnTime 90, OnSecurity ''Stable'' None, OnLastL2 dash]\<rparr>"
  unfolding verify_run_def side_run_val by code_simp

lemma verify_run_reachable: "reachable verify_run"
  unfolding verify_run_def side_run_def
  by (intro reachable.intros) (simp add: create_def)

lemma powered_run_val:
  "powered_run =
     \<lparr>snake = [\<lparr>px = 10, py = 10\<rparr>, \<lparr>px = 9, py = 10\<rparr>, \<lparr>px = 8, py = 10\<rparr>,
               \<lparr>px = 7, py = 10\<rparr>, \<lparr>px = 6, py = 10\<rparr>],
      direction = \<lparr>px = 1, py = 0\<rparr>, nextDirection = \<lparr>px = 1, py = 0\<rparr>,
      moveTimer = Some 140, speed = 140,
      foods =
        [\<lparr>fx = 11, fy = 10, fname = ''Starknet'', ftype = Drain, fkey = ''starknet'',
           verified = False\<rparr>,
         \<lparr>fx = 12, fy = 10, fname = ''Scroll'', ftype = Shield, fkey = ''scroll'',
           verified = False\<rparr>,
         \<lparr>fx = 0, fy = 0, fname = ''Base'', ftype = Normal, fkey = ''base'', verified = False\<rparr>,
         \<lparr>fx = 1, fy = 0, fname = ''Base'', ftype = Normal, fkey = ''base'', verified = False\<rparr>],
      score = 16, timeLeft = 90, isPaused = False, isGameOver = False,
      reverseUntil = 5200, stunUntil = 2140, poweredEatTimes = [140, 2200],
      lastL2 = ''Optimism'', sceneRef = True,
      calls =
        [OnScore 0, OnTime 90, OnSecurity ''Stable'' None, OnLastL2 dash,
         OnScore 8, OnLastL2 ''zkSync'', OnSecurity ''Stable'' (Some 1),
         OnScore 16, OnLastL2 ''Optimism'', OnSecurity ''Shaky'' (Some 2)]\<rparr>"
  by code_simp

lemma powered_run_reachable: "reachable powered_run"
  unfolding powered_run_def
  by (intro reachable.intros) (simp add: create_def)

lemma reachable_ticks: "reachable s \<Longrightarrow> reachable (foldl (\<lambda>s k. tick k s) s ks)"
proof (induction ks arbitrary: s)
  case Nil
  then show ?case by simp
next
  case (Cons k ks)
  have "reachable (tick k s)"
    unfolding tick_def using Cons.prems by (intro reachable.intros)
  then show ?case using Cons.IH by simp
qed

lemma drain_run_reachable: "reachable drain_run"
proof -
  have "reachable (start (\<lambda>i. r_path (Suc i)) (create createGame_init))"
    by (rule r_start) (simp add: create_def)
  then have "reachable
      (foldl (\<lambda>s k. tick k s) (start (\<lambda>i. r_path (Suc i)) (create createGame_init)) [1 ..< 13])"
    by (rule reachable_ticks)
  then show ?thesis
    unfolding drain_run_def by (intro r_input r_resume)
qed

subsection \<open>Splicing\<close>

lemma set_splice: "set (splice a n xs) \<subseteq> set xs"
  unfolding splice_def Let_def by (auto dest: in_set_takeD in_set_dropD)

lemma splice_tail:
  assumes "0 \<le> k" "k \<le> int (length xs)"
  shows "splice (int (length xs) - k) k xs = take (length xs - nat k) xs"
  using assms unfolding splice_def Let_def
  by (simp add: min_def max_def nat_diff_distrib)

lemma splice_nothing: "k \<le> 0 \<Longrightarrow> splice a k xs = xs"
  unfolding splice_def Let_def by (simp add: min_def max_def)

lemma splice_one: "i < length xs \<Longrightarrow> splice (int i) 1 xs = take i xs @ drop (Suc i) xs"
  unfolding splice_def Let_def by (simp add: min_def max_def nat_add_distrib)

text \<open>The call \<^verbatim>\<open>snake.splice(snake.length - loss, loss)\<close> of the drain effect.\<close>

lemma drain_splice:
  "splice (int (length xs) - min 3 (int (length xs) - 2)) (min 3 (int (length xs) - 2)) xs =
     take (length xs - nat (min 3 (int (length xs) - 2))) xs"
proof (cases "2 \<le> length xs")
  case True
  then show ?thesis by (intro splice_tail) auto
next
  case False
  then have "min 3 (int (length xs) - 2) \<le> 0" by simp
  then show ?thesis by (simp add: splice_nothing)
qed

subsection \<open>What happens to the snake\<close>

lemma snake_spawnFood [simp]: "snake (spawnFood b r s) = snake s"
  by (simp add: spawnFood_def split: prod.splits option.splits)

lemma snake_verifyFraudProof [simp]: "snake (verifyFraudProof h s) = snake s"
  by (simp add: verifyFraudProof_def)

lemma snake_adjustDifficulty [simp]: "snake (adjustDifficulty s) = snake s"
  by (simp add: adjustDifficulty_def Let_def split: option.splits)

lemma snake_updateSecurityHud [simp]: "snake (updateSecurityHud t s) = snake s"
  by (simp add: updateSecurityHud_def Let_def emit_def)

lemma snake_tickTimer [simp]: "snake (tickTimer s) = snake s"
  by (simp add: tickTimer_def Let_def gameOver_eq emit_def)

lemma snake_applyDirection [simp]: "snake (applyDirection t d s) = snake s"
  by (simp add: applyDirection_def Let_def)

lemma snake_resolveEat_splice:
  "snake (resolveEat c f s) =
     (if ftype f = Drain \<and> \<not> collapses c f s
      then splice (int (length (snake s)) - min 3 (int (length (snake s)) - 2))
             (min 3 (int (length (snake s)) - 2)) (snake s)
      else snake s)"
  by (simp add: resolveEat_def Let_def gameOver_eq winGame_eq emit_def collapses_def
      windowAfter_def POWERED_TYPES_def)

lemma snake_resolveEat:
  "snake (resolveEat c f s) =
     (if ftype f = Drain \<and> \<not> collapses c f s
      then take (length (snake s) - nat (min 3 (int (length (snake s)) - 2))) (snake s)
      else snake s)"
  unfolding snake_resolveEat_splice drain_splice ..

lemma length_snake_resolveEat:
  "2 \<le> length (snake s) \<Longrightarrow> 2 \<le> length (snake (resolveEat c f s))"
  by (auto simp: snake_resolveEat)

lemma set_snake_resolveEat: "set (snake (resolveEat c f s)) \<subseteq> set (snake s)"
  by (auto simp: snake_resolveEat dest: in_set_takeD)

lemma snake_eatPhase:
  "snake (eatPhase c r h s) =
     (case foodIndexAt h (foods s) of
        None \<Rightarrow> butlast (snake s)
      | Some i \<Rightarrow> snake (resolveEat c (foods s ! i) s))"
  by (simp add: eatPhase_def Let_def split: option.splits)

lemma snake_spawn_fold:
  "snake (foldl (\<lambda>st i. spawnFood (sceneRef st) (rs i) st) s xs) = snake s"
  by (induction xs arbitrary: s) simp_all

lemma snake_start:
  "sceneRef s \<Longrightarrow>
   snake (start rs s) = [\<lparr>px = 8, py = 10\<rparr>, \<lparr>px = 7, py = 10\<rparr>, \<lparr>px = 6, py = 10\<rparr>]"
  by (simp add: start_def Let_def snake_spawn_fold emit_def)

subsection \<open>The paths through a movement tick\<close>

lemma step_moving:
  assumes "tickMoves c s"
  shows "step c r s = verifyFraudProof (nextHead s) (eatPhase c r (nextHead s) (moved s))"
proof -
  from assms obtain h b where hb: "snake s = h # b"
    by (auto simp: tickMoves_def neq_Nil_conv)
  with assms show ?thesis
    by (simp add: step_def tickMoves_def nextHead_def moved_def inGrid_def Let_def list_ex_pos
        not_less)
qed

lemma step_hits_wall:
  assumes "\<not> isPaused s" "\<not> isGameOver s" "\<not> now_step c < stunUntil s" "snake s \<noteq> []"
    and "\<not> inGrid (nextHead s)"
  shows "step c r s = gameOver ''Hit the wall.'' (s\<lparr>direction := nextDirection s\<rparr>)"
proof -
  from assms obtain h b where hb: "snake s = h # b"
    by (auto simp: neq_Nil_conv)
  from assms(5) have "px (nextHead s) < 0 \<or> px (nextHead s) \<ge> GRID_SIZE \<or>
      py (nextHead s) < 0 \<or> py (nextHead s) \<ge> GRID_SIZE"
    by (auto simp: inGrid_def)
  with assms hb show ?thesis
    by (simp add: step_def Let_def nextHead_def)
qed

lemma step_hits_snake:
  assumes "\<not> isPaused s" "\<not> isGameOver s" "\<not> now_step c < stunUntil s" "snake s \<noteq> []"
    and "inGrid (nextHead s)" and "nextHead s \<in> set (snake s)"
  shows "step c r s = gameOver ''Hit yourself.'' (s\<lparr>direction := nextDirection s\<rparr>)"
proof -
  from assms obtain h b where hb: "snake s = h # b"
    by (auto simp: neq_Nil_conv)
  with assms show ?thesis
    by (simp add: step_def Let_def nextHead_def inGrid_def list_ex_pos not_less)
qed

lemma step_not_moving: "\<not> tickMoves c s \<Longrightarrow> snake (step c r s) = snake s"
proof (cases "snake s")
  case Nil
  then show ?thesis by (simp add: step_def)
next
  case (Cons h b)
  assume "\<not> tickMoves c s"
  then consider "isPaused s \<or> isGameOver s" | "now_step c < stunUntil s"
    | "\<not> isPaused s" "\<not> isGameOver s" "\<not> now_step c < stunUntil s" "\<not> inGrid (nextHead s)"
    | "\<not> isPaused s" "\<not> isGameOver s" "\<not> now_step c < stunUntil s" "inGrid (nextHead s)"
      "nextHead s \<in> set (snake s)"
    using Cons by (auto simp: tickMoves_def)
  then show ?thesis
  proof cases
    case 1
    then show ?thesis by (simp add: step_def)
  next
    case 2
    then show ?thesis by (simp add: step_def)
  next
    case 3
    then show ?thesis using Cons by (simp add: step_hits_wall gameOver_eq)
  next
    case 4
    then show ?thesis using Cons by (simp add: step_hits_snake gameOver_eq)
  qed
qed

subsection \<open>Invariants of a run\<close>

lemma snake_ok_step:
  assumes "snake_ok s"
  shows "snake_ok (step c r s)"
proof (cases "tickMoves c s")
  case False
  with assms show ?thesis by (simp add: snake_ok_def step_not_moving)
next
  case True
  have cells: "\<forall>p \<in> set (snake (moved s)). inGrid p"
    using assms True by (auto simp: snake_ok_def moved_def tickMoves_def)
  have len: "3 \<le> length (snake (moved s))"
    using assms by (simp add: snake_ok_def moved_def)
  show ?thesis
  proof (cases "foodIndexAt (nextHead s) (foods (moved s))")
    case None
    then have sn: "snake (step c r s) = butlast (snake (moved s))"
      by (simp add: step_moving [OF True] snake_eatPhase)
    show ?thesis
      unfolding snake_ok_def sn using cells len by (auto dest: in_set_butlastD)
  next
    case (Some i)
    then have sn: "snake (step c r s) = snake (resolveEat c (foods (moved s) ! i) (moved s))"
      by (simp add: step_moving [OF True] snake_eatPhase)
    show ?thesis
      unfolding snake_ok_def sn
      using cells len set_snake_resolveEat [of c "foods (moved s) ! i" "moved s"]
        length_snake_resolveEat [of "moved s" c "foods (moved s) ! i"]
      by auto
  qed
qed

lemma reachable_snake_ok: "reachable s \<Longrightarrow> snake_ok s"
proof (induction rule: reachable.induct)
  case (r_start s rs)
  then show ?case by (simp add: snake_ok_def snake_start inGrid_def GRID_SIZE_def)
next
  case (r_pause s)
  then show ?case by (simp add: snake_ok_def pause_def)
next
  case (r_resume s)
  then show ?case by (simp add: snake_ok_def resume_def)
next
  case (r_toggle s)
  then show ?case by (simp add: snake_ok_def togglePause_def)
next
  case (r_input s now d)
  then show ?case by (simp add: snake_ok_def)
next
  case (r_step s c r)
  then show ?case by (simp add: snake_ok_step)
next
  case (r_tick s)
  then show ?case by (simp add: snake_ok_def)
qed

text \<open>
  C7 says that a drain item that is eaten removes exactly \<open>min(3, length - 2)\<close> cells
  from the tail. It does not when it is the third powered item within 15 seconds: the
  security collapse returns from \<^verbatim>\<open>resolveEat\<close> before the drain effect. In the run
  \<open>powered_run\<close>, a shield item eaten at time 140 and a jam item at time 2200, the tick at
  time 5000 eats the drain item in front of the snake: the snake, five cells before the
  tick and six with the new head, keeps all six, although \<open>min(3, 6 - 2) = 3\<close>.
\<close>

theorem drain_collapse_counterexample:
  "reachable powered_run \<and>
   (tickMoves (c_at 5000) powered_run \<and>
    foodIndexAt (nextHead powered_run) (foods powered_run) = Some 0 \<and>
    ftype (foods powered_run ! 0) = Drain \<and>
    length (snake powered_run) = 5 \<and>
    length (snake (moved powered_run)) = 6 \<and>
    min 3 (int (length (snake (moved powered_run))) - 2) = 3 \<and>
    snake (resolveEat (c_at 5000) (foods powered_run ! 0) (moved powered_run)) =
      snake (moved powered_run) \<and>
    snake (step (c_at 5000) (r_cell 2 0) powered_run) =
      [\<lparr>px = 11, py = 10\<rparr>, \<lparr>px = 10, py = 10\<rparr>, \<lparr>px = 9, py = 10\<rparr>, \<lparr>px = 8, py = 10\<rparr>,
       \<lparr>px = 7, py = 10\<rparr>, \<lparr>px = 6, py = 10\<rparr>] \<and>
    last (calls (step (c_at 5000) (r_cell 2 0) powered_run)) =
      OnGameOver ''Security collapse: too many powered L2s in a short window.'' 22)"
proof (rule conjI)
  show "reachable powered_run"
    by (rule powered_run_reachable)
  show "tickMoves (c_at 5000) powered_run \<and>
    foodIndexAt (nextHead powered_run) (foods powered_run) = Some 0 \<and>
    ftype (foods powered_run ! 0) = Drain \<and>
    length (snake powered_run) = 5 \<and>
    length (snake (moved powered_run)) = 6 \<and>
    min 3 (int (length (snake (moved powered_run))) - 2) = 3 \<and>
    snake (resolveEat (c_at 5000) (foods powered_run ! 0) (moved powered_run)) =
      snake (moved powered_run) \<and>
    snake (step (c_at 5000) (r_cell 2 0) powered_run) =
      [\<lparr>px = 11, py = 10\<rparr>, \<lparr>px = 10, py = 10\<rparr>, \<lparr>px = 9, py = 10\<rparr>, \<lparr>px = 8, py = 10\<rparr>,
       \<lparr>px = 7, py = 10\<rparr>, \<lparr>px = 6, py = 10\<rparr>] \<and>
    last (calls (step (c_at 5000) (r_cell 2 0) powered_run)) =
      OnGameOver ''Security collapse: too many powered L2s in a short window.'' 22"
    unfolding powered_run_val by code_simp
qed

text \<open>
  C7, amended. In every run, from \<^verbatim>\<open>start()\<close> on and after every operation, timer tick and
  input, the snake has at least two cells. A drain item that is eaten removes exactly
  \<open>min(3, length - 2)\<close> cells from the tail, the length counted with the new head, unless
  it is the powered item that sets off the security collapse: then it removes none. Either
  way no eaten item takes a snake of two or more cells below two. The same is stated for
  the movement tick that eats the drain item: the snake it leaves is the old one with the
  new head, whole after a collapse and without its last \<open>min(3, length - 1)\<close> cells
  otherwise, \<open>length\<close> now being that of the snake before the tick.
\<close>

theorem snake_length_invariant:
  "(reachable s \<longrightarrow> 2 \<le> length (snake s)) \<and>
   (ftype f = Drain \<longrightarrow> 2 \<le> length (snake t) \<longrightarrow>
      snake (resolveEat c f t) =
        (if collapses c f t then snake t
         else take (length (snake t) - nat (min 3 (int (length (snake t)) - 2))) (snake t)) \<and>
      int (length (snake (resolveEat c f t))) =
        (if collapses c f t then int (length (snake t))
         else int (length (snake t)) - min 3 (int (length (snake t)) - 2))) \<and>
   (2 \<le> length (snake t) \<longrightarrow> 2 \<le> length (snake (resolveEat c f t))) \<and>
   (tickMoves c s \<longrightarrow> foodIndexAt (nextHead s) (foods s) = Some i \<longrightarrow>
    ftype (foods s ! i) = Drain \<longrightarrow>
      snake (step c r s) =
        (if collapses c (foods s ! i) (moved s) then nextHead s # snake s
         else take (length (snake s) + 1 - nat (min 3 (int (length (snake s)) - 1)))
                (nextHead s # snake s)))"
proof (intro conjI impI)
  assume "reachable s"
  then show "2 \<le> length (snake s)"
    using reachable_snake_ok by (simp add: snake_ok_def)
next
  assume "ftype f = Drain"
  then show "snake (resolveEat c f t) =
      (if collapses c f t then snake t
       else take (length (snake t) - nat (min 3 (int (length (snake t)) - 2))) (snake t))"
    by (simp add: snake_resolveEat)
next
  assume "ftype f = Drain" "2 \<le> length (snake t)"
  then show "int (length (snake (resolveEat c f t))) =
      (if collapses c f t then int (length (snake t))
       else int (length (snake t)) - min 3 (int (length (snake t)) - 2))"
    by (simp add: snake_resolveEat)
next
  assume "2 \<le> length (snake t)"
  then show "2 \<le> length (snake (resolveEat c f t))"
    by (rule length_snake_resolveEat)
next
  assume tm: "tickMoves c s" and fi: "foodIndexAt (nextHead s) (foods s) = Some i"
    and dr: "ftype (foods s ! i) = Drain"
  have "snake (step c r s) = snake (resolveEat c (foods s ! i) (moved s))"
    using fi by (simp add: step_moving [OF tm] snake_eatPhase moved_def)
  also have "\<dots> =
      (if collapses c (foods s ! i) (moved s) then snake (moved s)
       else take (length (snake (moved s)) - nat (min 3 (int (length (snake (moved s))) - 2)))
              (snake (moved s)))"
    using dr by (simp add: snake_resolveEat)
  also have "\<dots> =
      (if collapses c (foods s ! i) (moved s) then nextHead s # snake s
       else take (length (snake s) + 1 - nat (min 3 (int (length (snake s)) - 1)))
              (nextHead s # snake s))"
    by (simp add: moved_def)
  finally show "snake (step c r s) =
      (if collapses c (foods s ! i) (moved s) then nextHead s # snake s
       else take (length (snake s) + 1 - nat (min 3 (int (length (snake s)) - 1)))
              (nextHead s # snake s))" .
qed

theorem snake_length_invariant_witness:
  "reachable powered_run \<and> 2 \<le> length (snake powered_run) \<and>
   tickMoves (c_at 20000) powered_run \<and>
   foodIndexAt (nextHead powered_run) (foods powered_run) = Some 0 \<and>
   ftype (foods powered_run ! 0) = Drain \<and>
   \<not> collapses (c_at 20000) (foods powered_run ! 0) (moved powered_run) \<and>
   length (snake powered_run) = 5 \<and>
   snake (step (c_at 20000) (r_cell 2 0) powered_run) =
     [\<lparr>px = 11, py = 10\<rparr>, \<lparr>px = 10, py = 10\<rparr>, \<lparr>px = 9, py = 10\<rparr>] \<and>
   \<not> collapses (c_at 20000) drain_item long_snake \<and>
   snake (resolveEat (c_at 20000) drain_item long_snake) =
     [\<lparr>px = 8, py = 10\<rparr>, \<lparr>px = 7, py = 10\<rparr>, \<lparr>px = 6, py = 10\<rparr>] \<and>
   int (length (snake (resolveEat (c_at 20000) drain_item long_snake))) = 6 - min 3 (6 - 2)"
proof -
  have tm: "tickMoves (c_at 20000) powered_run"
    unfolding powered_run_val by code_simp
  have fi: "foodIndexAt (nextHead powered_run) (foods powered_run) = Some 0"
    unfolding powered_run_val by code_simp
  have dr: "ftype (foods powered_run ! 0) = Drain"
    by (simp add: powered_run_val)
  have nc: "\<not> collapses (c_at 20000) (foods powered_run ! 0) (moved powered_run)"
    unfolding powered_run_val by code_simp
  have sn: "snake powered_run =
      [\<lparr>px = 10, py = 10\<rparr>, \<lparr>px = 9, py = 10\<rparr>, \<lparr>px = 8, py = 10\<rparr>, \<lparr>px = 7, py = 10\<rparr>,
       \<lparr>px = 6, py = 10\<rparr>]"
    by (simp add: powered_run_val)
  have nh: "nextHead powered_run = \<lparr>px = 11, py = 10\<rparr>"
    unfolding powered_run_val by code_simp
  have nc': "\<not> collapses (c_at 20000) drain_item long_snake"
    by (simp add: collapses_def windowAfter_def long_snake_def create_def createGame_init_def
        c_at_def)
  have len: "length (snake long_snake) = 6"
    by (simp add: long_snake_def)
  have dr': "ftype drain_item = Drain"
    by (simp add: drain_item_def)
  from snake_length_invariant
    [where s = powered_run and f = drain_item and c = "c_at 20000" and t = long_snake
       and i = 0 and r = "r_cell 2 0"]
    powered_run_reachable tm fi dr nc nc' len dr'
  show ?thesis by (simp add: sn nh) (simp add: long_snake_def)
qed

subsection \<open>Running into the snake\<close>

text \<open>
  C1. On a movement tick of a run that is live, not paused and not stunned, if the new head
  (the head moved by the pending direction, which the tick commits) is a cell of the snake
  as it is before the move, the cell of the tail included, the tick ends the run with the
  reason "Hit yourself.". The test comes before the head is prepended and before anything
  is eaten: the snake, the food and the score are left as they were.
\<close>

theorem step_self_collision:
  assumes "reachable s"
    and "\<not> isPaused s" and "\<not> isGameOver s" and "\<not> now_step c < stunUntil s"
    and "nextHead s \<in> set (snake s)"
  shows "step c r s =
           s\<lparr>direction := nextDirection s, isGameOver := True,
             calls := calls s @ [OnGameOver ''Hit yourself.'' (score s)]\<rparr>"
proof -
  from assms(1) have ok: "snake_ok s" by (rule reachable_snake_ok)
  with assms(5) have "inGrid (nextHead s)" by (simp add: snake_ok_def)
  moreover from ok have "snake s \<noteq> []" by (auto simp: snake_ok_def)
  ultimately show ?thesis using assms by (simp add: step_hits_snake gameOver_eq)
qed

theorem step_self_collision_witness:
  "nextHead loop_run = last (snake loop_run) \<and>
   step (c_at 560) r_far loop_run =
     loop_run\<lparr>direction := \<lparr>px = 0, py = - 1\<rparr>, isGameOver := True,
       calls := calls loop_run @ [OnGameOver ''Hit yourself.'' 3]\<rparr>"
proof -
  have nh: "nextHead loop_run = \<lparr>px = 8, py = 10\<rparr>"
    by (simp add: loop_run_val nextHead_def movedHead_def)
  have "step (c_at 560) r_far loop_run =
      loop_run\<lparr>direction := nextDirection loop_run, isGameOver := True,
        calls := calls loop_run @ [OnGameOver ''Hit yourself.'' (score loop_run)]\<rparr>"
    by (rule step_self_collision [OF loop_run_reachable])
      (simp_all add: nh, simp_all add: loop_run_val c_at_def)
  then show ?thesis by (simp add: nh) (simp add: loop_run_val)
qed

subsection \<open>Eating an unverified fraud item\<close>

text \<open>
  C2. Whatever the run state, resolving an eaten item of kind fraud whose \<open>verified\<close> flag
  is false ends the run with the reason "A fraud-proof L2 was eaten before verification."
  and does nothing else: the state is the old one with \<open>isGameOver\<close> set and the
  \<^verbatim>\<open>onGameOver\<close> call recorded with the old score. The 10 points are not added, the
  powered-event window gets no entry, no side effect is applied, the run is not won and
  the speed is not recomputed.
\<close>

theorem resolveEat_unverified_fraud:
  assumes "ftype f = Fraud" and "\<not> verified f"
  shows "resolveEat c f s =
           s\<lparr>isGameOver := True,
             calls := calls s @
               [OnGameOver ''A fraud-proof L2 was eaten before verification.'' (score s)]\<rparr>"
  using assms by (simp add: resolveEat_def gameOver_eq)

theorem resolveEat_unverified_fraud_witness:
  "resolveEat (c_at 140)
     \<lparr>fx = 9, fy = 10, fname = ''Arbitrum'', ftype = Fraud, fkey = ''arbitrum'',
       verified = False\<rparr>
     (create createGame_init) =
   (create createGame_init)\<lparr>isGameOver := True,
     calls := [OnGameOver ''A fraud-proof L2 was eaten before verification.'' 0]\<rparr>"
  using resolveEat_unverified_fraud
    [of "\<lparr>fx = 9, fy = 10, fname = ''Arbitrum'', ftype = Fraud, fkey = ''arbitrum'',
           verified = False\<rparr>" "c_at 140" "create createGame_init"]
  by (simp add: create_def createGame_init_def)

subsection \<open>Directional input\<close>

text \<open>
  C6. For every directional input, the vector is first negated if the clock reads less than
  \<open>reverseUntil\<close>; the result is discarded, and the state left as it is, if it is the exact
  inverse of the current direction, and otherwise it becomes \<open>nextDirection\<close> (the pending
  direction), nothing else changing. So while the jam lasts, the input left with the
  current direction right is applied as right.
\<close>

theorem applyDirection_rule:
  "applyDirection now d s =
     (let next = (if now < reverseUntil s then \<lparr>px = - px d, py = - py d\<rparr> else d)
      in if px next = - px (direction s) \<and> py next = - py (direction s) then s
         else s\<lparr>nextDirection := next\<rparr>) \<and>
   (now < reverseUntil s \<longrightarrow> direction s = \<lparr>px = 1, py = 0\<rparr> \<longrightarrow>
      applyDirection now \<lparr>px = - 1, py = 0\<rparr> s = s\<lparr>nextDirection := \<lparr>px = 1, py = 0\<rparr>\<rparr>)"
  unfolding applyDirection_def Let_def by (auto simp: add_eq_0_iff2)

theorem applyDirection_rule_witness:
  "applyDirection 500 \<lparr>px = - 1, py = 0\<rparr> ((create createGame_init)\<lparr>reverseUntil := 3000\<rparr>) =
     (create createGame_init)\<lparr>reverseUntil := 3000, nextDirection := \<lparr>px = 1, py = 0\<rparr>\<rparr> \<and>
   applyDirection 500 \<lparr>px = - 1, py = 0\<rparr> (create createGame_init) = create createGame_init"
  using
    applyDirection_rule
      [of 500 "\<lparr>px = - 1, py = 0\<rparr>" "(create createGame_init)\<lparr>reverseUntil := 3000\<rparr>"]
    applyDirection_rule [of 500 "\<lparr>px = - 1, py = 0\<rparr>" "create createGame_init"]
  by (simp add: create_def createGame_init_def Let_def)

subsection \<open>Pausing after the end\<close>

text \<open>
  C8 asks that \<^verbatim>\<open>togglePause\<close> change nothing once the run has ended. The engine's
  \<^verbatim>\<open>togglePause\<close> has no such guard: in the run that ended on its first tick, a run
  state the engine reaches, it sets the paused flag. The copy of the function in
  \<^verbatim>\<open>main.js\<close> has the guard, and leaves an ended run alone.
\<close>

theorem togglePause_after_end:
  "reachable ended_run \<and> isGameOver ended_run \<and> \<not> isPaused ended_run \<and>
   isPaused (togglePause ended_run) \<and> togglePause ended_run \<noteq> ended_run \<and>
   togglePause_main ended_run = ended_run"
proof -
  have "isGameOver ended_run \<and> \<not> isPaused ended_run \<and>
      isPaused (togglePause ended_run) \<and> togglePause ended_run \<noteq> ended_run \<and>
      togglePause_main ended_run = ended_run"
    unfolding ended_run_val by (simp add: togglePause_def togglePause_main_def)
  with ended_run_reachable show ?thesis by blast
qed

lemma togglePause_always_flips: "isPaused (togglePause s) = (\<not> isPaused s)"
  by (simp add: togglePause_def)

lemma togglePause_main_ended: "isGameOver s \<Longrightarrow> togglePause_main s = s"
  by (simp add: togglePause_main_def)

subsection \<open>The stages of \<^verbatim>\<open>resolveEat\<close>\<close>

lemma resolveEat_unfold:
  "resolveEat c f s =
     (if ftype f = Fraud \<and> \<not> verified f
      then gameOver ''A fraud-proof L2 was eaten before verification.'' s
      else if collapses c f s
      then gameOver ''Security collapse: too many powered L2s in a short window.'' (scored c f s)
      else if TARGET_SCORE \<le> score s + FOOD_TYPES_value (ftype f)
      then winGame (sideEffect c f (scored c f s))
      else updateSecurityHud (now_hud c) (adjustDifficulty (sideEffect c f (scored c f s))))"
proof (cases "ftype f")
  case Normal
  then show ?thesis
    by (simp add: resolveEat_def Let_def scored_def sideEffect_def collapses_def emit_def
        POWERED_TYPES_def)
next
  case Shield
  then show ?thesis
    by (simp add: resolveEat_def Let_def scored_def sideEffect_def collapses_def emit_def
        POWERED_TYPES_def windowAfter_def)
next
  case Fraud
  then show ?thesis
    by (simp add: resolveEat_def Let_def scored_def sideEffect_def collapses_def emit_def
        POWERED_TYPES_def windowAfter_def)
next
  case Jam
  then show ?thesis
    by (simp add: resolveEat_def Let_def scored_def sideEffect_def collapses_def emit_def
        POWERED_TYPES_def windowAfter_def)
next
  case Drain
  then show ?thesis
    by (simp add: resolveEat_def Let_def scored_def sideEffect_def collapses_def emit_def
        POWERED_TYPES_def windowAfter_def drain_splice)
qed

lemma scored_fields [simp]:
  "score (scored c f s) = score s + FOOD_TYPES_value (ftype f)"
  "isGameOver (scored c f s) = isGameOver s"
  "snake (scored c f s) = snake s"
  "foods (scored c f s) = foods s"
  "calls (scored c f s) =
     calls s @ [OnScore (score s + FOOD_TYPES_value (ftype f)), OnLastL2 (fname f)]"
  "poweredEatTimes (scored c f s) =
     (if ftype f \<in> set POWERED_TYPES then windowAfter c s else poweredEatTimes s)"
  by (simp_all add: scored_def)

lemma sideEffect_fields [simp]:
  "score (sideEffect c f s) = score s"
  "isGameOver (sideEffect c f s) = isGameOver s"
  "foods (sideEffect c f s) = foods s"
  "calls (sideEffect c f s) = calls s"
  "poweredEatTimes (sideEffect c f s) = poweredEatTimes s"
  by (simp_all add: sideEffect_def split: kind.splits)

lemma hud_fields [simp]:
  "score (updateSecurityHud t s) = score s"
  "isGameOver (updateSecurityHud t s) = isGameOver s"
  "poweredEatTimes (updateSecurityHud t s) = poweredEatTimes s"
  "foods (updateSecurityHud t s) = foods s"
  by (simp_all add: updateSecurityHud_def Let_def emit_def)

lemma adjust_fields [simp]:
  "score (adjustDifficulty s) = score s"
  "isGameOver (adjustDifficulty s) = isGameOver s"
  "poweredEatTimes (adjustDifficulty s) = poweredEatTimes s"
  "foods (adjustDifficulty s) = foods s"
  "calls (adjustDifficulty s) = calls s"
  by (simp_all add: adjustDifficulty_def Let_def split: option.splits)

lemma end_fields [simp]:
  "score (gameOver m s) = score s" "isGameOver (gameOver m s)"
  "poweredEatTimes (gameOver m s) = poweredEatTimes s" "foods (gameOver m s) = foods s"
  "snake (gameOver m s) = snake s" "calls (gameOver m s) = calls s @ [OnGameOver m (score s)]"
  "score (winGame s) = score s" "isGameOver (winGame s)"
  "poweredEatTimes (winGame s) = poweredEatTimes s" "foods (winGame s) = foods s"
  "snake (winGame s) = snake s" "calls (winGame s) = calls s @ [OnWin (score s)]"
  by (simp_all add: gameOver_eq winGame_eq)

lemma calls_hud:
  "\<exists>st n. calls (updateSecurityHud t s) = calls s @ [OnSecurity st n]"
  by (simp add: updateSecurityHud_def Let_def emit_def)

lemma score_resolveEat:
  "score (resolveEat c f s) =
     (if ftype f = Fraud \<and> \<not> verified f then score s else score s + FOOD_TYPES_value (ftype f))"
  by (simp add: resolveEat_unfold)

lemma foods_resolveEat [simp]: "foods (resolveEat c f s) = foods s"
  by (simp add: resolveEat_unfold)

lemma isGameOver_resolveEat:
  "isGameOver (resolveEat c f s) \<longleftrightarrow>
     isGameOver s \<or> (ftype f = Fraud \<and> \<not> verified f) \<or> collapses c f s \<or>
     TARGET_SCORE \<le> score s + FOOD_TYPES_value (ftype f)"
  by (auto simp: resolveEat_unfold)

lemma poweredEatTimes_resolveEat:
  "poweredEatTimes (resolveEat c f s) =
     (if (ftype f = Fraud \<and> \<not> verified f) \<or> ftype f \<notin> set POWERED_TYPES
      then poweredEatTimes s else windowAfter c s)"
  by (simp add: resolveEat_unfold)

lemma calls_resolveEat:
  assumes "\<not> (ftype f = Fraud \<and> \<not> verified f)"
  shows "\<exists>e. calls (resolveEat c f s) =
           calls s @ [OnScore (score s + FOOD_TYPES_value (ftype f)), OnLastL2 (fname f), e] \<and>
         (if collapses c f s
          then e = OnGameOver ''Security collapse: too many powered L2s in a short window.''
                     (score s + FOOD_TYPES_value (ftype f))
          else if TARGET_SCORE \<le> score s + FOOD_TYPES_value (ftype f)
          then e = OnWin (score s + FOOD_TYPES_value (ftype f))
          else \<exists>st n. e = OnSecurity st n)"
proof -
  obtain st n where
    "calls (updateSecurityHud (now_hud c) (adjustDifficulty (sideEffect c f (scored c f s)))) =
       calls (adjustDifficulty (sideEffect c f (scored c f s))) @ [OnSecurity st n]"
    using calls_hud by blast
  with assms show ?thesis
    by (simp add: resolveEat_unfold)
qed

lemma foodIndexAt_Some:
  "foodIndexAt p fs = Some i \<Longrightarrow> i < length fs \<and> fx (fs ! i) = px p \<and> fy (fs ! i) = py p"
proof (induction fs arbitrary: i)
  case Nil
  then show ?case by simp
next
  case (Cons f fs)
  then show ?case by (auto split: if_splits)
qed

lemma spawnFood_fields [simp]:
  "score (spawnFood b r s) = score s"
  "isGameOver (spawnFood b r s) = isGameOver s"
  "calls (spawnFood b r s) = calls s"
  "poweredEatTimes (spawnFood b r s) = poweredEatTimes s"
  by (simp_all add: spawnFood_def split: prod.splits option.splits)

lemma verify_fields [simp]:
  "score (verifyFraudProof h s) = score s"
  "isGameOver (verifyFraudProof h s) = isGameOver s"
  "calls (verifyFraudProof h s) = calls s"
  "poweredEatTimes (verifyFraudProof h s) = poweredEatTimes s"
  by (simp_all add: verifyFraudProof_def)

lemma foods_verifyFraudProof:
  "foods (verifyFraudProof h s) =
     map (\<lambda>fd. fd\<lparr>verified :=
                  verified fd \<or> (ftype fd = Fraud \<and> \<bar>fx fd - px h\<bar> + \<bar>fy fd - py h\<bar> = 1)\<rparr>)
       (foods s)"
  unfolding verifyFraudProof_def by (auto intro!: map_cong)

lemma eatPhase_eats:
  assumes "foodIndexAt h (foods s) = Some i"
  shows "eatPhase c r h s =
           spawnFood True r
             ((resolveEat c (foods s ! i) s)\<lparr>foods := take i (foods s) @ drop (Suc i) (foods s)\<rparr>)"
  using assms foodIndexAt_Some [OF assms]
  by (simp add: eatPhase_def Let_def splice_one)

lemma moved_fields [simp]:
  "foods (moved s) = foods s" "score (moved s) = score s" "calls (moved s) = calls s"
  "isGameOver (moved s) = isGameOver s" "snake (moved s) = nextHead s # snake s"
  "poweredEatTimes (moved s) = poweredEatTimes s"
  by (simp_all add: moved_def)

lemma step_eats:
  assumes "tickMoves c s" and "foodIndexAt (nextHead s) (foods s) = Some i"
  shows "step c r s =
           verifyFraudProof (nextHead s)
             (spawnFood True r
               ((resolveEat c (foods s ! i) (moved s))
                  \<lparr>foods := take i (foods s) @ drop (Suc i) (foods s)\<rparr>))"
  using assms by (simp add: step_moving eatPhase_eats)

lemma step_ended: "isGameOver s \<Longrightarrow> step c r s = s"
  by (simp add: step_def)

lemma tickTimer_ended: "isGameOver s \<Longrightarrow> tickTimer s = s"
  by (simp add: tickTimer_def)

subsection \<open>The powered-event window\<close>

text \<open>
  C3. When a powered item (shield, fraud, jam or drain; a fraud item verified, an unverified
  one being fatal before anything else happens) is eaten, the clock reading is appended to
  the powered-event window and the entries 15 seconds old or older are dropped. If the
  window then holds three entries or more, the run ends with the reason "Security
  collapse: too many powered L2s in a short window." and nothing more of the item is
  applied: the state is the old one with the points added, the last-eaten name, the new
  window, \<open>isGameOver\<close> set and the three calls recorded, whatever the score, so an item
  that also takes the score to 100 ends the run as this loss and not as a win. Conversely,
  when all earlier entries are at least 15 seconds old (two powered items eaten, then a
  wait of more than 15 seconds), the window becomes the single new entry, no
  \<^verbatim>\<open>onGameOver\<close> call is made, and the run goes on: it is ended afterwards only if it
  was before or if the item takes the score to the target, which is a win.
\<close>

theorem powered_window_collapse:
  assumes "ftype f \<in> set POWERED_TYPES" and "\<not> (ftype f = Fraud \<and> \<not> verified f)"
  shows
    "poweredEatTimes (resolveEat c f s) =
       filter (\<lambda>t. now_eat c - t < 15000) (poweredEatTimes s @ [now_eat c]) \<and>
     (3 \<le> length (filter (\<lambda>t. now_eat c - t < 15000) (poweredEatTimes s @ [now_eat c])) \<longrightarrow>
        resolveEat c f s =
          s\<lparr>score := score s + FOOD_TYPES_value (ftype f), lastL2 := fname f,
            poweredEatTimes :=
              filter (\<lambda>t. now_eat c - t < 15000) (poweredEatTimes s @ [now_eat c]),
            isGameOver := True,
            calls := calls s @
              [OnScore (score s + FOOD_TYPES_value (ftype f)), OnLastL2 (fname f),
               OnGameOver ''Security collapse: too many powered L2s in a short window.''
                 (score s + FOOD_TYPES_value (ftype f))]\<rparr>) \<and>
     ((\<forall>t \<in> set (poweredEatTimes s). 15000 \<le> now_eat c - t) \<longrightarrow>
        poweredEatTimes (resolveEat c f s) = [now_eat c] \<and>
        (isGameOver (resolveEat c f s) \<longleftrightarrow>
           isGameOver s \<or> TARGET_SCORE \<le> score s + FOOD_TYPES_value (ftype f)) \<and>
        (\<forall>reason n. OnGameOver reason n \<notin>
           set (drop (length (calls s)) (calls (resolveEat c f s)))))"
proof (intro conjI impI)
  show w: "poweredEatTimes (resolveEat c f s) =
      filter (\<lambda>t. now_eat c - t < 15000) (poweredEatTimes s @ [now_eat c])"
    using assms by (auto simp: poweredEatTimes_resolveEat windowAfter_def)
  {
    assume "3 \<le> length (filter (\<lambda>t. now_eat c - t < 15000) (poweredEatTimes s @ [now_eat c]))"
    then have "collapses c f s"
      using assms(1) by (simp add: collapses_def windowAfter_def)
    then show "resolveEat c f s =
        s\<lparr>score := score s + FOOD_TYPES_value (ftype f), lastL2 := fname f,
          poweredEatTimes :=
            filter (\<lambda>t. now_eat c - t < 15000) (poweredEatTimes s @ [now_eat c]),
          isGameOver := True,
          calls := calls s @
            [OnScore (score s + FOOD_TYPES_value (ftype f)), OnLastL2 (fname f),
             OnGameOver ''Security collapse: too many powered L2s in a short window.''
               (score s + FOOD_TYPES_value (ftype f))]\<rparr>"
      using assms by (auto simp: resolveEat_unfold gameOver_eq scored_def windowAfter_def)
  }
  assume old: "\<forall>t \<in> set (poweredEatTimes s). 15000 \<le> now_eat c - t"
  then have "filter (\<lambda>t. now_eat c - t < 15000) (poweredEatTimes s) = []"
    by (auto simp: filter_empty_conv)
  then have wa: "windowAfter c s = [now_eat c]"
    by (simp add: windowAfter_def)
  then show "poweredEatTimes (resolveEat c f s) = [now_eat c]"
    using assms by (auto simp: poweredEatTimes_resolveEat)
  from wa have nc: "\<not> collapses c f s"
    by (simp add: collapses_def)
  then show "isGameOver (resolveEat c f s) \<longleftrightarrow>
      isGameOver s \<or> TARGET_SCORE \<le> score s + FOOD_TYPES_value (ftype f)"
    using assms(2) by (auto simp: isGameOver_resolveEat)
  from calls_resolveEat [OF assms(2), of c s] nc
  show "\<forall>reason n. OnGameOver reason n \<notin>
      set (drop (length (calls s)) (calls (resolveEat c f s)))"
    by (auto split: if_splits)
qed

theorem powered_window_collapse_witness:
  "resolveEat (c_at 9000) shield_item two_eaten =
     two_eaten\<lparr>score := 103, lastL2 := ''zkSync'', poweredEatTimes := [1000, 5000, 9000],
       isGameOver := True,
       calls := [OnScore 103, OnLastL2 ''zkSync'',
         OnGameOver ''Security collapse: too many powered L2s in a short window.'' 103]\<rparr> \<and>
   poweredEatTimes (resolveEat (c_at 21000) shield_item (two_eaten\<lparr>score := 16\<rparr>)) = [21000] \<and>
   \<not> isGameOver (resolveEat (c_at 21000) shield_item (two_eaten\<lparr>score := 16\<rparr>)) \<and>
   poweredEatTimes powered_run = [140, 2200] \<and> \<not> isGameOver powered_run \<and>
   isGameOver (step (c_at 5000) (r_cell 2 0) powered_run) \<and>
   last (calls (step (c_at 5000) (r_cell 2 0) powered_run)) =
     OnGameOver ''Security collapse: too many powered L2s in a short window.'' 22 \<and>
   \<not> isGameOver (step (c_at 20000) (r_cell 2 0) powered_run) \<and>
   poweredEatTimes (step (c_at 20000) (r_cell 2 0) powered_run) = [20000]"
proof -
  have run: "poweredEatTimes powered_run = [140, 2200] \<and> \<not> isGameOver powered_run \<and>
      isGameOver (step (c_at 5000) (r_cell 2 0) powered_run) \<and>
      last (calls (step (c_at 5000) (r_cell 2 0) powered_run)) =
        OnGameOver ''Security collapse: too many powered L2s in a short window.'' 22 \<and>
      \<not> isGameOver (step (c_at 20000) (r_cell 2 0) powered_run) \<and>
      poweredEatTimes (step (c_at 20000) (r_cell 2 0) powered_run) = [20000]"
    unfolding powered_run_val by code_simp
  have p: "ftype shield_item \<in> set POWERED_TYPES"
    and v: "\<not> (ftype shield_item = Fraud \<and> \<not> verified shield_item)"
    by (simp_all add: shield_item_def POWERED_TYPES_def)
  have a: "3 \<le> length (filter (\<lambda>t. now_eat (c_at 9000) - t < 15000)
      (poweredEatTimes two_eaten @ [now_eat (c_at 9000)]))"
    by (simp add: two_eaten_def c_at_def)
  have b: "\<forall>t \<in> set (poweredEatTimes (two_eaten\<lparr>score := 16\<rparr>)).
      15000 \<le> now_eat (c_at 21000) - t"
    by (simp add: two_eaten_def c_at_def)
  from powered_window_collapse [OF p v, of "c_at 9000" two_eaten] a
    powered_window_collapse [OF p v, of "c_at 21000" "two_eaten\<lparr>score := 16\<rparr>"] b
  have "resolveEat (c_at 9000) shield_item two_eaten =
     two_eaten\<lparr>score := 103, lastL2 := ''zkSync'', poweredEatTimes := [1000, 5000, 9000],
       isGameOver := True,
       calls := [OnScore 103, OnLastL2 ''zkSync'',
         OnGameOver ''Security collapse: too many powered L2s in a short window.'' 103]\<rparr> \<and>
     poweredEatTimes (resolveEat (c_at 21000) shield_item (two_eaten\<lparr>score := 16\<rparr>)) =
       [21000] \<and>
     \<not> isGameOver (resolveEat (c_at 21000) shield_item (two_eaten\<lparr>score := 16\<rparr>))"
    by (simp add: two_eaten_def c_at_def shield_item_def long_snake_def create_def
        createGame_init_def TARGET_SCORE_def)
  with run show ?thesis by blast
qed

subsection \<open>Verifying fraud items by proximity\<close>

text \<open>
  C4. On a movement tick that reaches the eating phase, the food list the tick leaves is the
  list the eating phase left, with \<open>verified\<close> set on exactly the fraud items at Manhattan
  distance 1 from the new head, next to those that were verified already: an unverified
  item at distance 0, 2 or more stays unverified on that tick, and nothing else of an item
  changes. The list the eating phase leaves is the old one when the new head is on no
  item, and otherwise the old one without the eaten item and with the item the replacement
  spawn adds, if any. Eating a fraud item that is verified adds exactly 10 to the score and
  does not end the run by the fraud rule: no \<^verbatim>\<open>onGameOver\<close> call with the fraud reason
  is made, and the run is ended afterwards only if it was before, by the security collapse
  or by reaching the target score. This holds for \<^verbatim>\<open>resolveEat\<close> and for the whole
  movement tick whose new head is on the verified item.
\<close>

theorem fraud_proximity_verification:
  "(tickMoves c s \<longrightarrow>
      foods (step c r s) =
        map (\<lambda>fd. fd\<lparr>verified := verified fd \<or>
                     (ftype fd = Fraud \<and>
                      \<bar>fx fd - px (nextHead s)\<bar> + \<bar>fy fd - py (nextHead s)\<bar> = 1)\<rparr>)
          (foods (eatPhase c r (nextHead s) (moved s)))) \<and>
   (tickMoves c s \<longrightarrow> foodIndexAt (nextHead s) (foods s) = None \<longrightarrow>
      foods (eatPhase c r (nextHead s) (moved s)) = foods s) \<and>
   (tickMoves c s \<longrightarrow> foodIndexAt (nextHead s) (foods s) = Some i \<longrightarrow>
      foods (eatPhase c r (nextHead s) (moved s)) =
        foods (spawnFood True r
          ((resolveEat c (foods s ! i) (moved s))
             \<lparr>foods := take i (foods s) @ drop (Suc i) (foods s)\<rparr>))) \<and>
   (ftype f = Fraud \<longrightarrow> verified f \<longrightarrow>
      score (resolveEat c f t) = score t + 10 \<and>
      (\<forall>n. OnGameOver ''A fraud-proof L2 was eaten before verification.'' n \<notin>
         set (drop (length (calls t)) (calls (resolveEat c f t)))) \<and>
      (isGameOver (resolveEat c f t) \<longleftrightarrow>
         isGameOver t \<or> collapses c f t \<or> TARGET_SCORE \<le> score t + 10)) \<and>
   (tickMoves c s \<longrightarrow> foodIndexAt (nextHead s) (foods s) = Some i \<longrightarrow>
    ftype (foods s ! i) = Fraud \<longrightarrow> verified (foods s ! i) \<longrightarrow>
      score (step c r s) = score s + 10 \<and>
      (\<forall>n. OnGameOver ''A fraud-proof L2 was eaten before verification.'' n \<notin>
         set (drop (length (calls s)) (calls (step c r s)))) \<and>
      (isGameOver (step c r s) \<longleftrightarrow>
         collapses c (foods s ! i) (moved s) \<or> TARGET_SCORE \<le> score s + 10))"
proof (intro conjI impI)
  assume "tickMoves c s"
  then show "foods (step c r s) =
      map (\<lambda>fd. fd\<lparr>verified := verified fd \<or>
                   (ftype fd = Fraud \<and>
                    \<bar>fx fd - px (nextHead s)\<bar> + \<bar>fy fd - py (nextHead s)\<bar> = 1)\<rparr>)
        (foods (eatPhase c r (nextHead s) (moved s)))"
    by (simp add: step_moving foods_verifyFraudProof)
next
  assume "foodIndexAt (nextHead s) (foods s) = None"
  then show "foods (eatPhase c r (nextHead s) (moved s)) = foods s"
    by (simp add: eatPhase_def Let_def)
next
  assume "foodIndexAt (nextHead s) (foods s) = Some i"
  then have "foodIndexAt (nextHead s) (foods (moved s)) = Some i"
    by simp
  from eatPhase_eats [OF this, of c r]
  show "foods (eatPhase c r (nextHead s) (moved s)) =
      foods (spawnFood True r
        ((resolveEat c (foods s ! i) (moved s))
           \<lparr>foods := take i (foods s) @ drop (Suc i) (foods s)\<rparr>))"
    by simp
next
  assume f: "ftype f = Fraud" "verified f"
  then show "score (resolveEat c f t) = score t + 10"
    by (simp add: score_resolveEat)
  from f show "isGameOver (resolveEat c f t) \<longleftrightarrow>
      isGameOver t \<or> collapses c f t \<or> TARGET_SCORE \<le> score t + 10"
    by (simp add: isGameOver_resolveEat)
  from f have "\<not> (ftype f = Fraud \<and> \<not> verified f)" by simp
  from calls_resolveEat [OF this, of c t]
  show "\<forall>n. OnGameOver ''A fraud-proof L2 was eaten before verification.'' n \<notin>
      set (drop (length (calls t)) (calls (resolveEat c f t)))"
    by (auto split: if_splits)
next
  assume tm: "tickMoves c s" and fi: "foodIndexAt (nextHead s) (foods s) = Some i"
    and f: "ftype (foods s ! i) = Fraud" "verified (foods s ! i)"
  let ?f = "foods s ! i"
  have live: "\<not> isGameOver s"
    using tm by (simp add: tickMoves_def)
  have st: "step c r s =
      verifyFraudProof (nextHead s)
        (spawnFood True r
          ((resolveEat c ?f (moved s))\<lparr>foods := take i (foods s) @ drop (Suc i) (foods s)\<rparr>))"
    using tm fi by (rule step_eats)
  show "score (step c r s) = score s + 10"
    using f by (simp add: st score_resolveEat)
  show "isGameOver (step c r s) \<longleftrightarrow> collapses c ?f (moved s) \<or> TARGET_SCORE \<le> score s + 10"
    using f live by (simp add: st isGameOver_resolveEat)
  from f have "\<not> (ftype ?f = Fraud \<and> \<not> verified ?f)" by simp
  from calls_resolveEat [OF this, of c "moved s"]
  show "\<forall>n. OnGameOver ''A fraud-proof L2 was eaten before verification.'' n \<notin>
      set (drop (length (calls s)) (calls (step c r s)))"
    by (auto simp: st split: if_splits)
qed

theorem fraud_proximity_verification_witness:
  "tickMoves (c_at 140) side_run \<and>
   foods side_run =
     [\<lparr>fx = 9, fy = 11, fname = ''Arbitrum'', ftype = Fraud, fkey = ''arbitrum'', verified = False\<rparr>,
      \<lparr>fx = 9, fy = 9, fname = ''Arbitrum'', ftype = Fraud, fkey = ''arbitrum'', verified = False\<rparr>,
      \<lparr>fx = 11, fy = 10, fname = ''Arbitrum'', ftype = Fraud, fkey = ''arbitrum'', verified = False\<rparr>,
      \<lparr>fx = 12, fy = 10, fname = ''Arbitrum'', ftype = Fraud, fkey = ''arbitrum'', verified = False\<rparr>] \<and>
   foods (step (c_at 140) r_far side_run) =
     [\<lparr>fx = 9, fy = 11, fname = ''Arbitrum'', ftype = Fraud, fkey = ''arbitrum'', verified = True\<rparr>,
      \<lparr>fx = 9, fy = 9, fname = ''Arbitrum'', ftype = Fraud, fkey = ''arbitrum'', verified = True\<rparr>,
      \<lparr>fx = 11, fy = 10, fname = ''Arbitrum'', ftype = Fraud, fkey = ''arbitrum'', verified = False\<rparr>,
      \<lparr>fx = 12, fy = 10, fname = ''Arbitrum'', ftype = Fraud, fkey = ''arbitrum'', verified = False\<rparr>] \<and>
   verify_run = applyDirection 150 \<lparr>px = 0, py = 1\<rparr> (step (c_at 140) r_far side_run) \<and>
   reachable verify_run \<and>
   tickMoves (c_at 280) verify_run \<and>
   nextHead verify_run = \<lparr>px = 9, py = 11\<rparr> \<and>
   foodIndexAt (nextHead verify_run) (foods verify_run) = Some 0 \<and>
   foods verify_run ! 0 =
     \<lparr>fx = 9, fy = 11, fname = ''Arbitrum'', ftype = Fraud, fkey = ''arbitrum'', verified = True\<rparr> \<and>
   score verify_run = 0 \<and>
   score (step (c_at 280) r_far verify_run) = 10 \<and>
   \<not> isGameOver (step (c_at 280) r_far verify_run) \<and>
   score (resolveEat (c_at 140) (fraud_item True) long_snake) = 10 \<and>
   \<not> isGameOver (resolveEat (c_at 140) (fraud_item True) long_snake)"
proof -
  have tm: "tickMoves (c_at 140) side_run"
    unfolding side_run_val by code_simp
  have nh: "nextHead side_run = \<lparr>px = 9, py = 10\<rparr>"
    unfolding side_run_val by code_simp
  have fs: "foods side_run =
     [\<lparr>fx = 9, fy = 11, fname = ''Arbitrum'', ftype = Fraud, fkey = ''arbitrum'', verified = False\<rparr>,
      \<lparr>fx = 9, fy = 9, fname = ''Arbitrum'', ftype = Fraud, fkey = ''arbitrum'', verified = False\<rparr>,
      \<lparr>fx = 11, fy = 10, fname = ''Arbitrum'', ftype = Fraud, fkey = ''arbitrum'', verified = False\<rparr>,
      \<lparr>fx = 12, fy = 10, fname = ''Arbitrum'', ftype = Fraud, fkey = ''arbitrum'', verified = False\<rparr>]"
    by (simp add: side_run_val)
  have fi: "foodIndexAt \<lparr>px = 9, py = 10\<rparr> (foods side_run) = None"
    by (simp add: fs)
  have tm2: "tickMoves (c_at 280) verify_run"
    unfolding verify_run_val by code_simp
  have nh2: "nextHead verify_run = \<lparr>px = 9, py = 11\<rparr>"
    unfolding verify_run_val by code_simp
  have fs2: "foods verify_run =
     [\<lparr>fx = 9, fy = 11, fname = ''Arbitrum'', ftype = Fraud, fkey = ''arbitrum'', verified = True\<rparr>,
      \<lparr>fx = 9, fy = 9, fname = ''Arbitrum'', ftype = Fraud, fkey = ''arbitrum'', verified = True\<rparr>,
      \<lparr>fx = 11, fy = 10, fname = ''Arbitrum'', ftype = Fraud, fkey = ''arbitrum'', verified = False\<rparr>,
      \<lparr>fx = 12, fy = 10, fname = ''Arbitrum'', ftype = Fraud, fkey = ''arbitrum'', verified = False\<rparr>]"
    by (simp add: verify_run_val)
  have fi2: "foodIndexAt \<lparr>px = 9, py = 11\<rparr> (foods verify_run) = Some 0"
    by (simp add: fs2)
  have nc2: "\<not> collapses (c_at 280) (foods verify_run ! 0) (moved verify_run)"
    unfolding verify_run_val by code_simp
  have sc2: "score verify_run = 0"
    by (simp add: verify_run_val)
  have nc: "\<not> collapses (c_at 140) (fraud_item True) long_snake"
    by code_simp
  have fr: "ftype (fraud_item True) = Fraud" "verified (fraud_item True)"
    by (simp_all add: fraud_item_def)
  have sc: "score long_snake = 0" "\<not> isGameOver long_snake"
    by (simp_all add: long_snake_def create_def createGame_init_def)
  have first: "foods (step (c_at 140) r_far side_run) =
     [\<lparr>fx = 9, fy = 11, fname = ''Arbitrum'', ftype = Fraud, fkey = ''arbitrum'', verified = True\<rparr>,
      \<lparr>fx = 9, fy = 9, fname = ''Arbitrum'', ftype = Fraud, fkey = ''arbitrum'', verified = True\<rparr>,
      \<lparr>fx = 11, fy = 10, fname = ''Arbitrum'', ftype = Fraud, fkey = ''arbitrum'', verified = False\<rparr>,
      \<lparr>fx = 12, fy = 10, fname = ''Arbitrum'', ftype = Fraud, fkey = ''arbitrum'', verified = False\<rparr>] \<and>
     score (resolveEat (c_at 140) (fraud_item True) long_snake) = 10 \<and>
     \<not> isGameOver (resolveEat (c_at 140) (fraud_item True) long_snake)"
    using fraud_proximity_verification
      [where c = "c_at 140" and s = side_run and r = r_far and f = "fraud_item True"
         and t = long_snake and i = 0]
      tm nc fr sc fi
    by (simp add: TARGET_SCORE_def nh fs)
  have second: "score (step (c_at 280) r_far verify_run) = 10 \<and>
     \<not> isGameOver (step (c_at 280) r_far verify_run)"
    using fraud_proximity_verification
      [where c = "c_at 280" and s = verify_run and r = r_far and f = "fraud_item True"
         and t = long_snake and i = 0]
      tm2 nc2 fi2 sc2
    by (simp add: TARGET_SCORE_def nh2 fs2)
  from tm fs first verify_run_reachable tm2 nh2 fi2 fs2 sc2 second
  show ?thesis
    by (simp add: verify_run_def)
qed

subsection \<open>Winning\<close>

text \<open>
  C5. If resolving an eaten item takes the score to 100 or more, the item not being an
  unverified fraud item and the security collapse not firing, the run ends as a win and
  \<^verbatim>\<open>onWin\<close> receives the final score. This holds of \<^verbatim>\<open>resolveEat\<close> and of the whole
  movement tick that eats the item, whose score at the end of the tick is the score
  \<^verbatim>\<open>onWin\<close> got. From then on the run is over for good: every later movement tick and
  every wall-clock tick returns the state unchanged, as they do on any ended run.
\<close>

theorem win_is_terminal:
  "(\<not> (ftype f = Fraud \<and> \<not> verified f) \<longrightarrow> \<not> collapses c f t \<longrightarrow>
    TARGET_SCORE \<le> score t + FOOD_TYPES_value (ftype f) \<longrightarrow>
      isGameOver (resolveEat c f t) \<and>
      score (resolveEat c f t) = score t + FOOD_TYPES_value (ftype f) \<and>
      calls (resolveEat c f t) =
        calls t @ [OnScore (score (resolveEat c f t)), OnLastL2 (fname f),
                   OnWin (score (resolveEat c f t))]) \<and>
   (tickMoves c s \<longrightarrow> foodIndexAt (nextHead s) (foods s) = Some i \<longrightarrow>
    \<not> (ftype (foods s ! i) = Fraud \<and> \<not> verified (foods s ! i)) \<longrightarrow>
    \<not> collapses c (foods s ! i) (moved s) \<longrightarrow>
    TARGET_SCORE \<le> score s + FOOD_TYPES_value (ftype (foods s ! i)) \<longrightarrow>
      isGameOver (step c r s) \<and>
      score (step c r s) = score s + FOOD_TYPES_value (ftype (foods s ! i)) \<and>
      calls (step c r s) =
        calls s @ [OnScore (score (step c r s)), OnLastL2 (fname (foods s ! i)),
                   OnWin (score (step c r s))] \<and>
      step c' r' (step c r s) = step c r s \<and>
      tickTimer (step c r s) = step c r s) \<and>
   (isGameOver u \<longrightarrow> step c' r' u = u \<and> tickTimer u = u)"
proof -
  have res: "isGameOver (resolveEat c f t) \<and>
      score (resolveEat c f t) = score t + FOOD_TYPES_value (ftype f) \<and>
      calls (resolveEat c f t) =
        calls t @ [OnScore (score (resolveEat c f t)), OnLastL2 (fname f),
                   OnWin (score (resolveEat c f t))]"
    if "\<not> (ftype f = Fraud \<and> \<not> verified f)" "\<not> collapses c f t"
      "TARGET_SCORE \<le> score t + FOOD_TYPES_value (ftype f)" for f t
    using that calls_resolveEat [OF that(1), of c t]
    by (auto simp: isGameOver_resolveEat score_resolveEat)
  have stp: "isGameOver (step c r s) \<and>
      score (step c r s) = score s + FOOD_TYPES_value (ftype (foods s ! i)) \<and>
      calls (step c r s) =
        calls s @ [OnScore (score (step c r s)), OnLastL2 (fname (foods s ! i)),
                   OnWin (score (step c r s))] \<and>
      step c' r' (step c r s) = step c r s \<and>
      tickTimer (step c r s) = step c r s"
    if tm: "tickMoves c s" and fi: "foodIndexAt (nextHead s) (foods s) = Some i"
      and nf: "\<not> (ftype (foods s ! i) = Fraud \<and> \<not> verified (foods s ! i))"
      and nc: "\<not> collapses c (foods s ! i) (moved s)"
      and sc: "TARGET_SCORE \<le> score s + FOOD_TYPES_value (ftype (foods s ! i))"
  proof -
    from sc have sc': "TARGET_SCORE \<le> score (moved s) + FOOD_TYPES_value (ftype (foods s ! i))"
      by simp
    note r = res [OF nf nc sc']
    have over: "isGameOver (step c r s)"
      using r by (simp add: step_eats [OF tm fi])
    moreover have "score (step c r s) = score s + FOOD_TYPES_value (ftype (foods s ! i))"
      using r by (simp add: step_eats [OF tm fi])
    moreover have "calls (step c r s) =
        calls s @ [OnScore (score (step c r s)), OnLastL2 (fname (foods s ! i)),
                   OnWin (score (step c r s))]"
      using r by (simp add: step_eats [OF tm fi])
    moreover have "step c' r' (step c r s) = step c r s"
      using over by (rule step_ended)
    moreover have "tickTimer (step c r s) = step c r s"
      using over by (rule tickTimer_ended)
    ultimately show ?thesis by blast
  qed
  show ?thesis
    using res [of f t] stp by (simp add: step_ended tickTimer_ended)
qed

theorem win_is_terminal_witness:
  "tickMoves (c_at 140) near_win \<and>
   isGameOver (step (c_at 140) r_far near_win) \<and>
   score (step (c_at 140) r_far near_win) = 100 \<and>
   calls (step (c_at 140) r_far near_win) = [OnScore 100, OnLastL2 ''Base'', OnWin 100] \<and>
   step (c_at 280) r_far (step (c_at 140) r_far near_win) = step (c_at 140) r_far near_win \<and>
   tickTimer (step (c_at 140) r_far near_win) = step (c_at 140) r_far near_win"
proof -
  have tm: "tickMoves (c_at 140) near_win"
    by code_simp
  have fi: "foodIndexAt (nextHead near_win) (foods near_win) = Some 0"
    by code_simp
  have it: "foods near_win ! 0 = normal_item"
    by (simp add: near_win_def)
  have nc: "\<not> collapses (c_at 140) normal_item (moved near_win)"
    by (simp add: collapses_def normal_item_def POWERED_TYPES_def)
  have sc: "score near_win = 97" "calls near_win = []"
    by (simp_all add: near_win_def long_snake_def create_def createGame_init_def)
  from win_is_terminal
    [where c = "c_at 140" and s = near_win and i = 0 and r = r_far and c' = "c_at 280"
       and r' = r_far and f = normal_item and t = near_win and u = near_win]
    tm fi nc sc
  show ?thesis
    by (simp add: it normal_item_def TARGET_SCORE_def)
qed

subsection \<open>The rest of a tick that ends the run\<close>

text \<open>
  C10 says that when resolving the eaten item ends the run, the snake keeps its grown
  length. A win by a drain item does not: the drain effect comes before the test of the
  score. In the run \<open>drain_run\<close> the snake of fifteen cells eats the drain item at 96
  points, wins with 102 and is left with thirteen cells, fewer than before the tick.
\<close>

theorem drain_win_counterexample:
  "reachable drain_run \<and>
   tickMoves (c_at 104000) drain_run \<and>
   foodIndexAt (nextHead drain_run) (foods drain_run) = Some 0 \<and>
   ftype (foods drain_run ! 0) = Drain \<and>
   isGameOver (resolveEat (c_at 104000) (foods drain_run ! 0) (moved drain_run)) \<and>
   last (calls (step (c_at 104000) (r_path 17) drain_run)) = OnWin 102 \<and>
   length (snake drain_run) = 15 \<and>
   length (snake (step (c_at 104000) (r_path 17) drain_run)) = 13"
proof -
  have "tickMoves (c_at 104000) drain_run \<and>
      foodIndexAt (nextHead drain_run) (foods drain_run) = Some 0 \<and>
      ftype (foods drain_run ! 0) = Drain \<and>
      isGameOver (resolveEat (c_at 104000) (foods drain_run ! 0) (moved drain_run)) \<and>
      last (calls (step (c_at 104000) (r_path 17) drain_run)) = OnWin 102 \<and>
      length (snake drain_run) = 15 \<and>
      length (snake (step (c_at 104000) (r_path 17) drain_run)) = 13"
    unfolding drain_run_val by code_simp
  with drain_run_reachable show ?thesis by blast
qed

text \<open>
  C10, amended. When resolving the eaten item ends the run mid-tick (an unverified fraud
  item, the security collapse, or a win), the rest of the movement tick still runs: the
  eaten item is removed from the food list, a replacement is spawned on the ended run if
  the spawn finds room, and the fraud items next to the new head are verified. The tick
  does not drop the tail: the snake stays as \<^verbatim>\<open>resolveEat\<close> left it, which is the new
  head in front of the whole old body, except for a win by a drain item, where the drain
  effect has removed \<open>min(3, length - 2)\<close> cells from the tail (length counted with the new
  head). The score and the recorded calls are those of the moment the run ended, and the
  last call carries the score the run ends the tick with.
\<close>

theorem mid_tick_termination:
  assumes "tickMoves c s" and "foodIndexAt (nextHead s) (foods s) = Some i"
    and "isGameOver (resolveEat c (foods s ! i) (moved s))"
  shows
    "step c r s =
       verifyFraudProof (nextHead s)
         (spawnFood True r
           ((resolveEat c (foods s ! i) (moved s))
              \<lparr>foods := take i (foods s) @ drop (Suc i) (foods s)\<rparr>)) \<and>
     isGameOver (step c r s) \<and>
     snake (step c r s) = snake (resolveEat c (foods s ! i) (moved s)) \<and>
     snake (step c r s) =
       (if ftype (foods s ! i) = Drain \<and> \<not> collapses c (foods s ! i) (moved s)
        then take (length (nextHead s # snake s) -
                   nat (min 3 (int (length (nextHead s # snake s)) - 2)))
               (nextHead s # snake s)
        else nextHead s # snake s) \<and>
     score (step c r s) = score (resolveEat c (foods s ! i) (moved s)) \<and>
     calls (step c r s) = calls (resolveEat c (foods s ! i) (moved s)) \<and>
     last (calls (step c r s)) =
       (if ftype (foods s ! i) = Fraud \<and> \<not> verified (foods s ! i)
        then OnGameOver ''A fraud-proof L2 was eaten before verification.'' (score (step c r s))
        else if collapses c (foods s ! i) (moved s)
        then OnGameOver ''Security collapse: too many powered L2s in a short window.''
               (score (step c r s))
        else OnWin (score (step c r s)))"
proof -
  let ?f = "foods s ! i"
  note st = step_eats [OF assms(1,2)]
  have alive: "\<not> isGameOver (moved s)"
    using assms(1) by (simp add: tickMoves_def)
  have l: "last (calls (resolveEat c ?f (moved s))) =
       (if ftype ?f = Fraud \<and> \<not> verified ?f
        then OnGameOver ''A fraud-proof L2 was eaten before verification.''
               (score (resolveEat c ?f (moved s)))
        else if collapses c ?f (moved s)
        then OnGameOver ''Security collapse: too many powered L2s in a short window.''
               (score (resolveEat c ?f (moved s)))
        else OnWin (score (resolveEat c ?f (moved s))))"
  proof (cases "ftype ?f = Fraud \<and> \<not> verified ?f")
    case True
    then show ?thesis by (simp add: resolveEat_unfold)
  next
    case False
    from assms(3) alive False
    have "collapses c ?f (moved s) \<or>
        TARGET_SCORE \<le> score (moved s) + FOOD_TYPES_value (ftype ?f)"
      by (simp add: isGameOver_resolveEat)
    with False show ?thesis
      by (auto simp: resolveEat_unfold)
  qed
  show ?thesis
    using assms(3) l by (simp add: st snake_resolveEat)
qed

theorem mid_tick_termination_witness:
  "isGameOver ended_run \<and>
   snake ended_run =
     [\<lparr>px = 9, py = 10\<rparr>, \<lparr>px = 8, py = 10\<rparr>, \<lparr>px = 7, py = 10\<rparr>, \<lparr>px = 6, py = 10\<rparr>] \<and>
   score ended_run = 0 \<and>
   last (calls ended_run) =
     OnGameOver ''A fraud-proof L2 was eaten before verification.'' 0 \<and>
   foods ended_run =
     [\<lparr>fx = 10, fy = 10, fname = ''Arbitrum'', ftype = Fraud, fkey = ''arbitrum'',
        verified = True\<rparr>,
      \<lparr>fx = 11, fy = 10, fname = ''Arbitrum'', ftype = Fraud, fkey = ''arbitrum'',
        verified = False\<rparr>,
      \<lparr>fx = 12, fy = 10, fname = ''Arbitrum'', ftype = Fraud, fkey = ''arbitrum'',
        verified = False\<rparr>,
      \<lparr>fx = 0, fy = 0, fname = ''Base'', ftype = Normal, fkey = ''base'', verified = False\<rparr>]"
proof -
  let ?s = "start rs_fraud (create createGame_init)"
  have tm: "tickMoves (c_at 140) ?s"
    by code_simp
  have fi: "foodIndexAt (nextHead ?s) (foods ?s) = Some 0"
    by code_simp
  have go: "isGameOver (resolveEat (c_at 140) (foods ?s ! 0) (moved ?s))"
    by code_simp
  have fr: "ftype (foods ?s ! 0) = Fraud" "\<not> verified (foods ?s ! 0)"
    by code_simp+
  note m = mid_tick_termination [OF tm fi go, of r_far]
  have over: "isGameOver ended_run"
    unfolding ended_run_def using m by blast
  have "last (calls (step (c_at 140) r_far ?s)) =
      (if ftype (foods ?s ! 0) = Fraud \<and> \<not> verified (foods ?s ! 0)
       then OnGameOver ''A fraud-proof L2 was eaten before verification.''
              (score (step (c_at 140) r_far ?s))
       else if collapses (c_at 140) (foods ?s ! 0) (moved ?s)
       then OnGameOver ''Security collapse: too many powered L2s in a short window.''
              (score (step (c_at 140) r_far ?s))
       else OnWin (score (step (c_at 140) r_far ?s)))"
    using m by blast
  with fr have "last (calls ended_run) =
      OnGameOver ''A fraud-proof L2 was eaten before verification.'' (score ended_run)"
    unfolding ended_run_def by simp
  moreover have "score ended_run = 0"
    by (simp add: ended_run_val)
  ultimately show ?thesis
    using over by (simp add: ended_run_val)
qed

subsection \<open>The kind of a spawned item\<close>

lemma normal_pool:
  "filter (\<lambda>l. l2_type l = Normal) L2S =
     [\<lparr>l2_name = ''Base'', l2_key = ''base'', l2_ledgerId = ''base'', l2_type = Normal\<rparr>,
      \<lparr>l2_name = ''Linea'', l2_key = ''linea'', l2_ledgerId = ''linea'', l2_type = Normal\<rparr>]"
  by (simp add: L2S_def)

text \<open>
  Inputs on which the rounding decides. Seven times the double nearest to \<open>4/7\<close> rounds to
  4, so that value selects the entry 4 of \<open>L2S\<close>, and the double nearest to \<open>2/7\<close> selects
  the entry 2. At 80 points the sum \<open>0.2 + 0.4\<close> rounds to the double above \<open>0.6\<close>, the
  threshold is the double \<open>0.6\<close>, and a first value equal to it closes the gate while the
  next double below opens it.
\<close>

lemma randomL2_rounding_examples:
  "round64 (4 / 7) = 2573485501354569 / 2 ^ 52 \<and>
   randomL2 0 0 (2573485501354569 / 2 ^ 52) = Some (L2S ! 4) \<and>
   round64 (2 / 7) = 2573485501354569 / 2 ^ 53 \<and>
   randomL2 0 0 (2573485501354569 / 2 ^ 53) = Some (L2S ! 2) \<and>
   round64 (round64 0.2 + round64 (real_of_int 80 / 200)) = 5404319552844596 / 2 ^ 53 \<and>
   round64 0.6 = 5404319552844595 / 2 ^ 53 \<and>
   map_option l2_type (randomL2 80 (5404319552844595 / 2 ^ 53) 0) = Some Normal \<and>
   map_option l2_type (randomL2 80 (5404319552844594 / 2 ^ 53) 0) = Some Fraud"
  by code_simp

text \<open>
  C9 says that an open gate draws the kind uniformly from the five kinds. The code draws
  an entry of the table \<open>L2S\<close> by its index, and the seven entries are not spread evenly
  over the kinds: two are normal and two are shield, one each is fraud, jam and drain. With
  the gate open, the values 0.3125 and 0.75 of \<^verbatim>\<open>Math.random()\<close> select two different
  entries, both normal, and fraud is selected only through the entry 0.
\<close>

theorem kind_not_uniform_counterexample:
  "length L2S = 7 \<and>
   length (filter (\<lambda>l. l2_type l = Normal) L2S) = 2 \<and>
   length (filter (\<lambda>l. l2_type l = Shield) L2S) = 2 \<and>
   length (filter (\<lambda>l. l2_type l = Fraud) L2S) = 1 \<and>
   randomL2 0 0 0 = Some (L2S ! 0) \<and> l2_type (L2S ! 0) = Fraud \<and>
   randomL2 0 0 (5 / 16) = Some (L2S ! 2) \<and> l2_type (L2S ! 2) = Normal \<and>
   randomL2 0 0 (3 / 4) = Some (L2S ! 5) \<and> l2_type (L2S ! 5) = Normal \<and>
   L2S ! 2 \<noteq> L2S ! 5"
  by code_simp

text \<open>
  C9, amended. For the two values \<open>u1\<close> and \<open>u2\<close> of \<^verbatim>\<open>Math.random()\<close>, doubles in
  \<open>[0, 1)\<close>: the gate is open exactly when \<open>u1\<close> is below \<open>min(0.2 + score/200, 0.6)\<close> as
  computed in doubles. With the gate open the item is the entry of \<open>L2S\<close> with the index
  \<open>\<lfloor>u2 * 7\<rfloor>\<close>, the product rounded to a double, which is one of the seven entries; their
  kinds are fraud, jam, normal, shield, drain, normal, shield, so normal and shield have
  two entries each and the other kinds one. With the gate closed the item is one of the
  two normal entries, so its kind is always normal.
\<close>

theorem randomL2_choice:
  assumes "isDouble u2" and "0 \<le> u2" and "u2 < 1"
  shows
    "randomL2 sc u1 u2 =
       (if u1 < min (round64 (round64 0.2 + round64 (real_of_int sc / 200))) (round64 0.6)
        then Some (L2S ! nat \<lfloor>round64 (u2 * 7)\<rfloor>)
        else Some (filter (\<lambda>l. l2_type l = Normal) L2S ! nat \<lfloor>round64 (u2 * 2)\<rfloor>)) \<and>
     nat \<lfloor>round64 (u2 * 7)\<rfloor> < 7 \<and> nat \<lfloor>round64 (u2 * 2)\<rfloor> < 2 \<and>
     (\<not> u1 < min (round64 (round64 0.2 + round64 (real_of_int sc / 200))) (round64 0.6) \<longrightarrow>
        map_option l2_type (randomL2 sc u1 u2) = Some Normal) \<and>
     map l2_type L2S = [Fraud, Jam, Normal, Shield, Drain, Normal, Shield]"
proof -
  have len: "length L2S = 7"
    by (simp add: L2S_def)
  have s7: "0 \<le> \<lfloor>round64 (u2 * 7)\<rfloor>" "\<lfloor>round64 (u2 * 7)\<rfloor> < 7"
    using round64_times_7 [OF assms] by (simp_all add: floor_less_iff)
  have s2: "0 \<le> \<lfloor>round64 (u2 * 2)\<rfloor>" "\<lfloor>round64 (u2 * 2)\<rfloor> < 2"
    using round64_times_2 [OF assms] by (simp_all add: floor_less_iff)
  have eq: "randomL2 sc u1 u2 =
       (if u1 < min (round64 (round64 0.2 + round64 (real_of_int sc / 200))) (round64 0.6)
        then Some (L2S ! nat \<lfloor>round64 (u2 * 7)\<rfloor>)
        else Some (filter (\<lambda>l. l2_type l = Normal) L2S ! nat \<lfloor>round64 (u2 * 2)\<rfloor>))"
    using s7 s2 by (simp add: randomL2_def Let_def len normal_pool)
  have idx: "nat \<lfloor>round64 (u2 * 7)\<rfloor> < 7" "nat \<lfloor>round64 (u2 * 2)\<rfloor> < 2"
    using s7 s2 by linarith+
  have "nat \<lfloor>round64 (u2 * 2)\<rfloor> = 0 \<or> nat \<lfloor>round64 (u2 * 2)\<rfloor> = 1"
    using idx(2) by linarith
  then have nrm:
    "l2_type (filter (\<lambda>l. l2_type l = Normal) L2S ! nat \<lfloor>round64 (u2 * 2)\<rfloor>) = Normal"
    by (auto simp: normal_pool)
  have kinds: "map l2_type L2S = [Fraud, Jam, Normal, Shield, Drain, Normal, Shield]"
    by (simp add: L2S_def)
  show ?thesis
    using eq idx nrm kinds by simp
qed

theorem randomL2_choice_witness:
  "isDouble (1 / 2) \<and>
   randomL2 0 (1 / 8) (1 / 2) = Some (L2S ! 3) \<and>
   randomL2 0 (1 / 2) (1 / 2) = Some (filter (\<lambda>l. l2_type l = Normal) L2S ! 1) \<and>
   randomL2 100 (1 / 2) (1 / 2) = Some (L2S ! 3) \<and>
   l2_type (L2S ! 3) = Shield \<and>
   l2_type (filter (\<lambda>l. l2_type l = Normal) L2S ! 1) = Normal"
proof -
  have d: "isDouble (1 / 2)"
    by code_simp
  have h: "(0::real) \<le> 1 / 2" "(1::real) / 2 < 1"
    by simp_all
  have g1: "(1 / 8 :: real) <
      min (round64 (round64 0.2 + round64 (real_of_int 0 / 200))) (round64 0.6)"
    by code_simp
  have g2: "\<not> (1 / 2 :: real) <
      min (round64 (round64 0.2 + round64 (real_of_int 0 / 200))) (round64 0.6)"
    by code_simp
  have g3: "(1 / 2 :: real) <
      min (round64 (round64 0.2 + round64 (real_of_int 100 / 200))) (round64 0.6)"
    by code_simp
  have i7: "nat \<lfloor>round64 (1 / 2 * 7)\<rfloor> = 3"
    by code_simp
  have i2: "nat \<lfloor>round64 (1 / 2 * 2)\<rfloor> = 1"
    by code_simp
  have e1: "randomL2 0 (1 / 8) (1 / 2) = Some (L2S ! 3)"
    using randomL2_choice [OF d h, of 0 "1 / 8", THEN conjunct1]
    by (simp only: g1 i7 if_True)
  have e2: "randomL2 0 (1 / 2) (1 / 2) = Some (filter (\<lambda>l. l2_type l = Normal) L2S ! 1)"
    using randomL2_choice [OF d h, of 0 "1 / 2", THEN conjunct1]
    by (simp only: g2 i2 if_False)
  have e3: "randomL2 100 (1 / 2) (1 / 2) = Some (L2S ! 3)"
    using randomL2_choice [OF d h, of 100 "1 / 2", THEN conjunct1]
    by (simp only: g3 i7 if_True)
  have k: "l2_type (L2S ! 3) = Shield"
    "l2_type (filter (\<lambda>l. l2_type l = Normal) L2S ! 1) = Normal"
    by (simp_all add: normal_pool) (simp add: L2S_def)
  from d e1 e2 e3 k show ?thesis by blast
qed

end
